theory Spec2Isabelle
  imports Complex_Main "HOL-Library.Multiset" "HOL-Library.Log_Nat"
begin

section \<open>The enrollment table\<close>

text \<open>
  \<^verbatim>\<open>school_data.py\<close> works on a pandas DataFrame read from a CSV file. A row of the
  frame has the columns 'School Name', 'School Code', 'School Year' and the three grade
  columns; a blank grade cell is NaN, written \<open>None\<close> here. Grade counts are whole
  numbers.
\<close>

record row =
  School_Name :: string
  School_Code :: int
  School_Year :: int
  Grade_10 :: "int option"
  Grade_11 :: "int option"
  Grade_12 :: "int option"

type_synonym table = "row list"

text \<open>The column labels of \<^verbatim>\<open>grades = ['Grade 10', 'Grade 11', 'Grade 12']\<close>.\<close>

datatype grade = Grade10 | Grade11 | Grade12

fun column :: "grade \<Rightarrow> row \<Rightarrow> int option" where
  "column Grade10 r = Grade_10 r"
| "column Grade11 r = Grade_11 r"
| "column Grade12 r = Grade_12 r"

text \<open>
  Python exceptions, by class and message. Only the first message is text of the
  source; the others name the place in pandas, numpy or Python that raises.
\<close>

datatype error = ValueError string | TypeError string | IndexError string | KeyError string

definition invalid_school :: error where
  "invalid_school = ValueError ''You must enter a valid school name or code.''"

definition series_not_scalar :: error where
  "series_not_scalar = TypeError ''cannot convert the series to int''"

definition nan_to_int :: error where
  "nan_to_int = ValueError ''cannot convert float NaN to integer''"

definition zero_size_max :: error where
  "zero_size_max = ValueError ''zero-size array to reduction operation maximum which has no identity''"

definition zero_size_min :: error where
  "zero_size_min = ValueError ''zero-size array to reduction operation minimum which has no identity''"

definition none_subscript :: error where
  "none_subscript = TypeError ''NoneType object is not subscriptable''"

definition index_out_of_bounds :: error where
  "index_out_of_bounds = IndexError ''index is out of bounds for axis 0''"

definition list_index_out_of_range :: error where
  "list_index_out_of_range = IndexError ''list index out of range''"

definition not_in_list :: error where
  "not_in_list = ValueError ''value is not in list''"

subsection \<open>\<^verbatim>\<open>Series.unique\<close> and the dictionary comprehension\<close>

text \<open>
  \<^verbatim>\<open>Series.unique()\<close> returns the distinct values in order of first appearance.
  \<open>unique_from seen xs\<close> is the scan with the values found so far.
\<close>

fun unique_from :: "'a list \<Rightarrow> 'a list \<Rightarrow> 'a list" where
  "unique_from seen [] = seen"
| "unique_from seen (x # xs) = unique_from (if x \<in> set seen then seen else seen @ [x]) xs"

definition unique :: "'a list \<Rightarrow> 'a list" where
  "unique xs = unique_from [] xs"

text \<open>
  A Python \<^verbatim>\<open>dict\<close> iterates in insertion order, and assigning to a key that is
  present keeps the key's place and replaces its value: an association list with
  distinct keys.
\<close>

type_synonym ('k, 'v) dict = "('k \<times> 'v) list"

fun dict_set :: "('k, 'v) dict \<Rightarrow> 'k \<Rightarrow> 'v \<Rightarrow> ('k, 'v) dict" where
  "dict_set [] k v = [(k, v)]"
| "dict_set ((k', v') # d) k v =
     (if k' = k then (k', v) # d else (k', v') # dict_set d k v)"

text \<open>\<^verbatim>\<open>{name: code for name, code in pairs}\<close>, started from the dictionary \<open>d\<close>.\<close>

fun dict_comprehension :: "('k, 'v) dict \<Rightarrow> ('k \<times> 'v) list \<Rightarrow> ('k, 'v) dict" where
  "dict_comprehension d [] = d"
| "dict_comprehension d ((k, v) # ps) = dict_comprehension (dict_set d k v) ps"

section \<open>The class \<^verbatim>\<open>SchoolStats\<close>\<close>

text \<open>
  The enrollment array is a numpy array of shape (schools, years, grades) and dtype
  int64, modelled as nested lists of the cell values. The attribute is \<^verbatim>\<open>None\<close>
  until \<^verbatim>\<open>create_enrollment_array\<close> has run.
\<close>

type_synonym cube = "int list list list"

record SchoolStats =
  data :: table
  enrollment_array :: "cube option"
  school_codes :: "(string, int) dict"

definition SchoolStats_init :: "table \<Rightarrow> SchoolStats" where
  "SchoolStats_init d =
     \<lparr> data = d,
       enrollment_array = None,
       school_codes = dict_comprehension [] (zip (map School_Name d) (map School_Code d)) \<rparr>"

subsection \<open>\<^verbatim>\<open>create_enrollment_array\<close>\<close>

text \<open>
  \<^verbatim>\<open>value = self.data[(name == school) & (year == year)][grade]\<close>: the grade column of
  the rows selected by the boolean mask, a Series with one entry per matching row.
\<close>

definition selected :: "table \<Rightarrow> string \<Rightarrow> int \<Rightarrow> grade \<Rightarrow> int option list" where
  "selected d school year g =
     map (column g) (filter (\<lambda>r. School_Name r = school \<and> School_Year r = year) d)"

text \<open>
  \<^verbatim>\<open>int(value)\<close> on a Series converts a Series of exactly one element and raises
  TypeError on any other length; \<^verbatim>\<open>int\<close> of NaN raises ValueError.
\<close>

fun series_int :: "int option list \<Rightarrow> error + int" where
  "series_int [Some v] = Inr v"
| "series_int [None] = Inl nan_to_int"
| "series_int _ = Inl series_not_scalar"

text \<open>\<^verbatim>\<open>int(value) if not pd.isna(value).any() else 0\<close>\<close>

definition cell_value :: "table \<Rightarrow> string \<Rightarrow> int \<Rightarrow> grade \<Rightarrow> error + int" where
  "cell_value d school year g =
     (let value = selected d school year g
      in if \<not> list_ex (\<lambda>v. v = None) value then series_int value else Inr 0)"

text \<open>
  \<^verbatim>\<open>np.empty\<close> allocates without initialising: the cells hold whatever the memory
  held, given here by \<open>garbage\<close>.
\<close>

definition np_empty :: "(nat \<Rightarrow> nat \<Rightarrow> nat \<Rightarrow> int) \<Rightarrow> nat \<Rightarrow> nat \<Rightarrow> nat \<Rightarrow> cube" where
  "np_empty garbage ns ny ng =
     map (\<lambda>i. map (\<lambda>j. map (\<lambda>k. garbage i j k) [0..<ng]) [0..<ny]) [0..<ns]"

text \<open>The assignment \<^verbatim>\<open>arr[i, j, k] = v\<close>.\<close>

definition set_cell :: "cube \<Rightarrow> nat \<Rightarrow> nat \<Rightarrow> nat \<Rightarrow> int \<Rightarrow> cube" where
  "set_cell arr i j k v = arr[i := (arr ! i)[j := (arr ! i ! j)[k := v]]]"

text \<open>
  The three nested \<^verbatim>\<open>for ... in enumerate(...)\<close> loops, innermost first. An
  exception in a cell leaves the loops at once.
\<close>

fun grade_loop ::
  "table \<Rightarrow> nat \<Rightarrow> string \<Rightarrow> nat \<Rightarrow> int \<Rightarrow> (nat \<times> grade) list \<Rightarrow> cube \<Rightarrow> error + cube" where
  "grade_loop d i school j year [] arr = Inr arr"
| "grade_loop d i school j year ((k, g) # rest) arr =
     (case cell_value d school year g of
        Inl e \<Rightarrow> Inl e
      | Inr v \<Rightarrow> grade_loop d i school j year rest (set_cell arr i j k v))"

fun year_loop ::
  "table \<Rightarrow> grade list \<Rightarrow> nat \<Rightarrow> string \<Rightarrow> (nat \<times> int) list \<Rightarrow> cube \<Rightarrow> error + cube" where
  "year_loop d grades i school [] arr = Inr arr"
| "year_loop d grades i school ((j, year) # rest) arr =
     (case grade_loop d i school j year (enumerate 0 grades) arr of
        Inl e \<Rightarrow> Inl e
      | Inr arr' \<Rightarrow> year_loop d grades i school rest arr')"

fun school_loop ::
  "table \<Rightarrow> grade list \<Rightarrow> int list \<Rightarrow> (nat \<times> string) list \<Rightarrow> cube \<Rightarrow> error + cube" where
  "school_loop d grades years [] arr = Inr arr"
| "school_loop d grades years ((i, school) # rest) arr =
     (case year_loop d grades i school (enumerate 0 years) arr of
        Inl e \<Rightarrow> Inl e
      | Inr arr' \<Rightarrow> school_loop d grades years rest arr')"

definition create_enrollment_array ::
  "(nat \<Rightarrow> nat \<Rightarrow> nat \<Rightarrow> int) \<Rightarrow> SchoolStats \<Rightarrow> error + SchoolStats" where
  "create_enrollment_array garbage self =
     (let schools = unique (map School_Name (data self));
          years = unique (map School_Year (data self));
          grades = [Grade10, Grade11, Grade12];
          arr = np_empty garbage (length schools) (length years) (length grades)
      in case school_loop (data self) grades years (enumerate 0 schools) arr of
           Inl e \<Rightarrow> Inl e
         | Inr arr' \<Rightarrow> Inr (self\<lparr>enrollment_array := Some arr'\<rparr>))"

subsection \<open>\<^verbatim>\<open>get_school_index\<close>\<close>

text \<open>
  The identifier is an \<^verbatim>\<open>int\<close> (a school code) or anything else (a school name):
  the two branches of \<^verbatim>\<open>isinstance(identifier, int)\<close>.
\<close>

datatype school_identifier = Name string | Code int

text \<open>
  \<^verbatim>\<open>next((name for name, code in self.school_codes.items() if code == identifier), None)\<close>:
  the first key in insertion order whose value is the code, or \<^verbatim>\<open>None\<close>.
\<close>

fun next_name :: "(string, int) dict \<Rightarrow> int \<Rightarrow> string option" where
  "next_name [] c = None"
| "next_name ((name, code) # items) c = (if code = c then Some name else next_name items c)"

text \<open>\<^verbatim>\<open>list.index\<close>: the first position of the value, ValueError when absent.\<close>

fun list_index :: "'a list \<Rightarrow> 'a \<Rightarrow> error + nat" where
  "list_index [] x = Inl not_in_list"
| "list_index (y # ys) x =
     (if y = x then Inr 0
      else case list_index ys x of Inl e \<Rightarrow> Inl e | Inr n \<Rightarrow> Inr (Suc n))"

definition get_school_index :: "SchoolStats \<Rightarrow> school_identifier \<Rightarrow> error + nat" where
  "get_school_index self ident =
     (let school_name = (case ident of
                           Code c \<Rightarrow> next_name (school_codes self) c
                         | Name s \<Rightarrow> Some s)
      in case school_name of
           None \<Rightarrow> Inl invalid_school
         | Some n \<Rightarrow>
             if n \<notin> set (map fst (school_codes self)) then Inl invalid_school
             else list_index (map fst (school_codes self)) n)"

subsection \<open>numpy reductions\<close>

text \<open>
  Sums of an int64 array are computed in int64 and wrap around; \<open>wrap64\<close> is the
  two's complement reading of the low 64 bits.
\<close>

definition wrap64 :: "int \<Rightarrow> int" where
  "wrap64 x = (x + 2 ^ 63) mod 2 ^ 64 - 2 ^ 63"

definition np_sum :: "int list \<Rightarrow> int" where
  "np_sum xs = wrap64 (sum_list xs)"

datatype npfloat = NaN | Fl rat

text \<open>
  Means and medians are computed in float64. A float64 has a significand of 53 bits:
  \<open>f64 q\<close> is the float64 nearest to \<open>q\<close>, a tie going to the even significand, and
  \<open>f64_exponent q\<close> is the exponent of the power of two at or below \<open>\<bar>q\<bar>\<close>. (Sums and
  quotients of int64 values stay far inside the exponent range of float64.)
\<close>

definition round_half_even :: "rat \<Rightarrow> int" where
  "round_half_even q =
     (let f = \<lfloor>q\<rfloor>; r = q - of_int f
      in if r < 1 / 2 then f else if 1 / 2 < r then f + 1 else if even f then f else f + 1)"

definition f64_exponent :: "rat \<Rightarrow> int" where
  "f64_exponent q =
     (if 1 \<le> \<bar>q\<bar> then bitlen \<lfloor>\<bar>q\<bar>\<rfloor> - 1 else - bitlen (\<lceil>1 / \<bar>q\<bar>\<rceil> - 1))"

definition f64 :: "rat \<Rightarrow> rat" where
  "f64 q =
     (if q = 0 then 0
      else let u = 2 powi (f64_exponent q - 52)
           in of_int (round_half_even (q / u)) * u)"

definition f64_add :: "rat \<Rightarrow> rat \<Rightarrow> rat" where
  "f64_add x y = f64 (x + y)"

text \<open>
  \<^verbatim>\<open>np.mean\<close> of an int64 array converts each value to float64, adds the converted
  values in float64 and divides by the count; the mean of no values is NaN. The values are
  added here in array order, each addition rounded. (numpy adds arrays of eight or more
  values in blocks; the order matters only when a partial sum is not exact, beyond
  \<open>2 ^ 53\<close>.)
\<close>

definition np_mean :: "int list \<Rightarrow> npfloat" where
  "np_mean xs =
     (if xs = [] then NaN
      else Fl (f64 (foldl f64_add 0 (map (\<lambda>x. f64 (of_int x)) xs) / of_nat (length xs))))"

fun np_floor :: "npfloat \<Rightarrow> npfloat" where
  "np_floor NaN = NaN"
| "np_floor (Fl q) = Fl (of_int \<lfloor>q\<rfloor>)"

fun np_max :: "int list \<Rightarrow> error + int" where
  "np_max [] = Inl zero_size_max"
| "np_max (x # xs) = Inr (fold max xs x)"

fun np_min :: "int list \<Rightarrow> error + int" where
  "np_min [] = Inl zero_size_min"
| "np_min (x # xs) = Inr (fold min xs x)"

text \<open>
  \<^verbatim>\<open>np.median\<close> brings the middle element (odd length) or the two middle elements (even
  length) to their sorted places and returns the mean of that slice,
  \<^verbatim>\<open>part[index:index+1]\<close> or \<^verbatim>\<open>part[index-1:index+1]\<close> with
  \<^verbatim>\<open>index = n // 2\<close>.
\<close>

definition np_median :: "int list \<Rightarrow> npfloat" where
  "np_median xs =
     (let part = sort xs; n = length part; index = n div 2
      in if n mod 2 = 1 then np_mean (take 1 (drop index part))
         else np_mean (take 2 (drop (index - 1) part)))"

text \<open>Python's \<^verbatim>\<open>int\<close> of a float truncates toward zero and raises on NaN.\<close>

fun py_int :: "npfloat \<Rightarrow> error + int" where
  "py_int NaN = Inl nan_to_int"
| "py_int (Fl q) = Inr (if 0 \<le> q then \<lfloor>q\<rfloor> else \<lceil>q\<rceil>)"

subsection \<open>\<^verbatim>\<open>calculate_school_stats\<close>\<close>

text \<open>
  The value under the key \<^verbatim>\<open>"median_over_500"\<close> is an \<^verbatim>\<open>int\<close> or the string
  \<^verbatim>\<open>"No enrollments over 500"\<close>.
\<close>

datatype median_value = Number int | Marker string

record school_stats =
  school_name :: string
  school_code :: int
  mean_grade_10 :: npfloat
  mean_grade_11 :: npfloat
  mean_grade_12 :: npfloat
  highest_enrollment :: int
  lowest_enrollment :: int
  yearly_totals :: "int list"
  total_enrollment :: int
  mean_yearly_enrollment :: npfloat
  enrollments_over_500 :: "int list"
  median_over_500 :: median_value

text \<open>\<^verbatim>\<open>school_data[:, k]\<close> on the (years, grades) slice of one school.\<close>

definition grade_column :: "int list list \<Rightarrow> nat \<Rightarrow> int list" where
  "grade_column school_data k = map (\<lambda>year_cells. year_cells ! k) school_data"

text \<open>
  The entries of the dictionary literal are evaluated in the order written: the means of
  an empty slice are NaN (numpy warns, does not raise), \<^verbatim>\<open>np.max\<close> of an empty
  slice raises.
\<close>

definition calculate_school_stats :: "SchoolStats \<Rightarrow> school_identifier \<Rightarrow> error + school_stats" where
  "calculate_school_stats self ident =
     (case get_school_index self ident of
        Inl e \<Rightarrow> Inl e
      | Inr index \<Rightarrow>
          if \<not> index < length (school_codes self) then Inl list_index_out_of_range
          else
            let name = fst (school_codes self ! index) in
            (case map_of (school_codes self) name of
               None \<Rightarrow> Inl (KeyError name)
             | Some code \<Rightarrow>
                 (case enrollment_array self of
                    None \<Rightarrow> Inl none_subscript
                  | Some arr \<Rightarrow>
                      if \<not> index < length arr then Inl index_out_of_bounds
                      else
                        let school_data = arr ! index;
                            cells = concat school_data
                        in (case np_max cells of
                              Inl e \<Rightarrow> Inl e
                            | Inr hi \<Rightarrow>
                                (case np_min cells of
                                   Inl e \<Rightarrow> Inl e
                                 | Inr lo \<Rightarrow>
                                     let stats =
                                       \<lparr> school_name = name,
                                         school_code = code,
                                         mean_grade_10 = np_floor (np_mean (grade_column school_data 0)),
                                         mean_grade_11 = np_floor (np_mean (grade_column school_data 1)),
                                         mean_grade_12 = np_floor (np_mean (grade_column school_data 2)),
                                         highest_enrollment = hi,
                                         lowest_enrollment = lo,
                                         yearly_totals = map np_sum school_data,
                                         total_enrollment = np_sum cells,
                                         mean_yearly_enrollment =
                                           np_floor (np_mean (map np_sum school_data)),
                                         enrollments_over_500 = filter (\<lambda>v. 500 < v) cells,
                                         median_over_500 = Marker ''No enrollments over 500'' \<rparr>
                                     in if 0 < length (enrollments_over_500 stats)
                                        then (case py_int (np_median (enrollments_over_500 stats)) of
                                                Inl e \<Rightarrow> Inl e
                                              | Inr m \<Rightarrow> Inr (stats\<lparr>median_over_500 := Number m\<rparr>))
                                        else Inr stats)))))"

subsection \<open>\<^verbatim>\<open>calculate_general_stats\<close>\<close>







section \<open>Descriptions used in the statements\<close>

subsection \<open>The cube as a table of cells\<close>

text \<open>
  \<open>collect\<close> runs a list of computations in order and stops at the first exception.
  \<open>cube_cells\<close> is the array the loops are meant to fill: the cell of each school, year
  and grade, with no array to start from.
\<close>

fun collect :: "(error + 'a) list \<Rightarrow> error + 'a list" where
  "collect [] = Inr []"
| "collect (x # xs) =
     (case x of
        Inl e \<Rightarrow> Inl e
      | Inr v \<Rightarrow> (case collect xs of Inl e \<Rightarrow> Inl e | Inr vs \<Rightarrow> Inr (v # vs)))"

definition year_cells :: "table \<Rightarrow> grade list \<Rightarrow> string \<Rightarrow> int \<Rightarrow> error + int list" where
  "year_cells d grades school year = collect (map (cell_value d school year) grades)"

definition school_cells ::
  "table \<Rightarrow> grade list \<Rightarrow> int list \<Rightarrow> string \<Rightarrow> error + int list list" where
  "school_cells d grades years school = collect (map (year_cells d grades school) years)"

definition cube_cells ::
  "table \<Rightarrow> grade list \<Rightarrow> int list \<Rightarrow> string list \<Rightarrow> error + cube" where
  "cube_cells d grades years schools = collect (map (school_cells d grades years) schools)"

subsection \<open>The median of a multiset\<close>

text \<open>
  The integer median of a multiset of integers: the middle value of an odd number of
  values; for an even number, the average of the two middle values with the fraction
  dropped (truncation toward zero).
\<close>

definition truncate_toward_zero :: "rat \<Rightarrow> int" where
  "truncate_toward_zero q = (if q < 0 then - \<lfloor>- q\<rfloor> else \<lfloor>q\<rfloor>)"

definition integer_median :: "int multiset \<Rightarrow> int" where
  "integer_median M =
     (let s = sorted_list_of_multiset M; n = size M
      in if odd n then s ! (n div 2)
         else truncate_toward_zero ((of_int (s ! (n div 2 - 1)) + of_int (s ! (n div 2))) / 2))"

subsection \<open>General statistics with the two years as parameters\<close>





subsection \<open>Example tables\<close>

text \<open>
  One school over two years with a blank Grade 11 cell in the second year, and two schools
  that carry the same code.
\<close>

definition lincoln_table :: table where
  "lincoln_table =
     [\<lparr>School_Name = ''Lincoln'', School_Code = 100, School_Year = 2013,
        Grade_10 = Some 400, Grade_11 = Some 420, Grade_12 = Some 600\<rparr>,
      \<lparr>School_Name = ''Lincoln'', School_Code = 100, School_Year = 2014,
        Grade_10 = Some 450, Grade_11 = None, Grade_12 = Some 610\<rparr>]"

definition shared_code_table :: table where
  "shared_code_table =
     [\<lparr>School_Name = ''North'', School_Code = 1, School_Year = 2013,
        Grade_10 = Some 400, Grade_11 = Some 420, Grade_12 = Some 600\<rparr>,
      \<lparr>School_Name = ''South'', School_Code = 1, School_Year = 2013,
        Grade_10 = Some 300, Grade_11 = Some 310, Grade_12 = Some 590\<rparr>]"

definition absent_year_table :: table where
  "absent_year_table =
     [\<lparr>School_Name = ''North'', School_Code = 1, School_Year = 2013,
        Grade_10 = Some 400, Grade_11 = Some 420, Grade_12 = Some 600\<rparr>,
      \<lparr>School_Name = ''South'', School_Code = 2, School_Year = 2014,
        Grade_10 = Some 300, Grade_11 = Some 310, Grade_12 = Some 590\<rparr>]"

text \<open>The sum of all cells of one school's slice, over all years and grades.\<close>

definition slice_sum :: "int list list \<Rightarrow> int" where
  "slice_sum sl = (\<Sum>j<length sl. \<Sum>k<length (sl ! j). sl ! j ! k)"

text \<open>The objects that \<^verbatim>\<open>create_enrollment_array\<close> leaves for the example tables.\<close>

definition lincoln_stats :: SchoolStats where
  "lincoln_stats =
     \<lparr> data = lincoln_table,
       enrollment_array = Some [[[400, 420, 600], [450, 0, 610]]],
       school_codes = [(''Lincoln'', 100)] \<rparr>"

definition riverside_table :: table where
  "riverside_table =
     [\<lparr>School_Name = ''Riverside'', School_Code = 200, School_Year = 2013,
        Grade_10 = Some 100, Grade_11 = Some 200, Grade_12 = None\<rparr>]"

definition riverside_stats :: SchoolStats where
  "riverside_stats =
     \<lparr> data = riverside_table,
       enrollment_array = Some [[[100, 200, 0]]],
       school_codes = [(''Riverside'', 200)] \<rparr>"

definition hillcrest_table :: table where
  "hillcrest_table =
     [\<lparr>School_Name = ''Hillcrest'', School_Code = 300, School_Year = 2013,
        Grade_10 = Some 501, Grade_11 = Some 502, Grade_12 = None\<rparr>]"

definition hillcrest_stats :: SchoolStats where
  "hillcrest_stats =
     \<lparr> data = hillcrest_table,
       enrollment_array = Some [[[501, 502, 0]]],
       school_codes = [(''Hillcrest'', 300)] \<rparr>"

text \<open>
  An array memory of zeros, the object built from a table without rows, and two tables of
  one school over two years: one for 2014 and 2015, one for 2013 and 2022.
\<close>

definition zero_memory :: "nat \<Rightarrow> nat \<Rightarrow> nat \<Rightarrow> int" where
  "zero_memory i j k = 0"

definition empty_stats :: SchoolStats where
  "empty_stats = \<lparr> data = [], enrollment_array = Some [], school_codes = [] \<rparr>"



text \<open>
  Two schools whose counts are \<open>2 ^ 53 + 1\<close>, the first integer that float64 cannot hold.
\<close>

definition metro_table :: table where
  "metro_table =
     [\<lparr>School_Name = ''Metro'', School_Code = 400, School_Year = 2013,
        Grade_10 = Some 9007199254740993, Grade_11 = Some 9007199254740993,
        Grade_12 = Some 9007199254740993\<rparr>]"

definition metro_stats :: SchoolStats where
  "metro_stats =
     \<lparr> data = metro_table,
       enrollment_array = Some [[[9007199254740993, 9007199254740993, 9007199254740993]]],
       school_codes = [(''Metro'', 400)] \<rparr>"

definition summit_table :: table where
  "summit_table =
     [\<lparr>School_Name = ''Summit'', School_Code = 500, School_Year = 2013,
        Grade_10 = Some 9007199254740993, Grade_11 = Some 9007199254740993,
        Grade_12 = None\<rparr>]"

definition summit_stats :: SchoolStats where
  "summit_stats =
     \<lparr> data = summit_table,
       enrollment_array = Some [[[9007199254740993, 9007199254740993, 0]]],
       school_codes = [(''Summit'', 500)] \<rparr>"

text \<open>
  Three schools over two years, the rows not grouped by school; two of the schools carry
  the same code. Below it the object built from the table, and the table for 2013 and 2022
  with a row for 2015 added.
\<close>

definition district_table :: table where
  "district_table =
     [\<lparr>School_Name = ''West'', School_Code = 5, School_Year = 2013,
        Grade_10 = Some 110, Grade_11 = Some 120, Grade_12 = Some 130\<rparr>,
      \<lparr>School_Name = ''North'', School_Code = 1, School_Year = 2013,
        Grade_10 = Some 210, Grade_11 = Some 220, Grade_12 = Some 230\<rparr>,
      \<lparr>School_Name = ''West'', School_Code = 5, School_Year = 2014,
        Grade_10 = Some 140, Grade_11 = Some 150, Grade_12 = Some 160\<rparr>,
      \<lparr>School_Name = ''South'', School_Code = 1, School_Year = 2013,
        Grade_10 = Some 310, Grade_11 = Some 320, Grade_12 = Some 330\<rparr>,
      \<lparr>School_Name = ''North'', School_Code = 1, School_Year = 2014,
        Grade_10 = Some 240, Grade_11 = Some 250, Grade_12 = Some 260\<rparr>,
      \<lparr>School_Name = ''South'', School_Code = 1, School_Year = 2014,
        Grade_10 = Some 340, Grade_11 = Some 350, Grade_12 = Some 360\<rparr>]"

definition district_stats :: SchoolStats where
  "district_stats =
     \<lparr> data = district_table,
       enrollment_array =
         Some [[[110, 120, 130], [140, 150, 160]],
               [[210, 220, 230], [240, 250, 260]],
               [[310, 320, 330], [340, 350, 360]]],
       school_codes = [(''West'', 5), (''North'', 1), (''South'', 1)] \<rparr>"


section \<open>The loops fill every cell\<close>

lemma collect_length: "collect xs = Inr vs \<Longrightarrow> length vs = length xs"
  by (induction xs arbitrary: vs) (auto split: sum.splits)

lemma collect_nth:
  "collect (map f xs) = Inr vs \<Longrightarrow> p < length xs \<Longrightarrow> f (xs ! p) = Inr (vs ! p)"
proof (induction xs arbitrary: vs p)
  case Nil
  then show ?case by simp
next
  case (Cons x xs)
  then show ?case
    by (cases p) (auto split: sum.splits)
qed

lemma take_Suc_update: "k < length xs \<Longrightarrow> take (Suc k) (xs[k := v]) = take k xs @ [v]"
  by (simp add: take_Suc_conv_app_nth)

lemma grade_loop_collect:
  "i < length arr \<Longrightarrow> j < length (arr ! i) \<Longrightarrow> length (arr ! i ! j) = k0 + length gs \<Longrightarrow>
   grade_loop d i s j y (enumerate k0 gs) arr =
     (case collect (map (cell_value d s y) gs) of
        Inl e \<Rightarrow> Inl e
      | Inr vs \<Rightarrow> Inr (arr[i := (arr ! i)[j := take k0 (arr ! i ! j) @ vs]]))"
proof (induction gs arbitrary: k0 arr)
  case Nil
  then show ?case by simp
next
  case (Cons g gs)
  show ?case
  proof (cases "cell_value d s y g")
    case (Inl e)
    then show ?thesis by simp
  next
    case (Inr v)
    let ?arr = "set_cell arr i j k0 v"
    have k0: "k0 < length (arr ! i ! j)" using Cons.prems by simp
    have a: "i < length ?arr" "j < length (?arr ! i)"
      "length (?arr ! i ! j) = Suc k0 + length gs"
      "?arr ! i ! j = (arr ! i ! j)[k0 := v]"
      using Cons.prems by (simp_all add: set_cell_def)
    have b: "?arr[i := (?arr ! i)[j := xs]] = arr[i := (arr ! i)[j := xs]]" for xs
      using Cons.prems by (simp add: set_cell_def)
    show ?thesis
      using Cons.IH[OF a(1) a(2) a(3)] Inr k0
      by (simp add: a(4) b take_Suc_update split: sum.splits)
  qed
qed

lemma year_loop_collect:
  "i < length arr \<Longrightarrow> length (arr ! i) = j0 + length ys \<Longrightarrow>
   list_all (\<lambda>cells. length cells = length grades) (drop j0 (arr ! i)) \<Longrightarrow>
   year_loop d grades i s (enumerate j0 ys) arr =
     (case collect (map (year_cells d grades s) ys) of
        Inl e \<Rightarrow> Inl e
      | Inr rows \<Rightarrow> Inr (arr[i := take j0 (arr ! i) @ rows]))"
proof (induction ys arbitrary: j0 arr)
  case Nil
  then show ?case by simp
next
  case (Cons y ys)
  have j0: "j0 < length (arr ! i)" using Cons.prems by simp
  have dr: "drop j0 (arr ! i) = arr ! i ! j0 # drop (Suc j0) (arr ! i)"
    using j0 by (simp add: Cons_nth_drop_Suc)
  have len: "length (arr ! i ! j0) = 0 + length grades"
    using Cons.prems(3) dr by simp
  note g = grade_loop_collect[OF Cons.prems(1) j0 len, of d s y]
  show ?case
  proof (cases "year_cells d grades s y")
    case (Inl e)
    then show ?thesis using g by (simp add: year_cells_def)
  next
    case (Inr vs)
    let ?arr = "arr[i := (arr ! i)[j0 := vs]]"
    have step: "grade_loop d i s j0 y (enumerate 0 grades) arr = Inr ?arr"
      using g Inr by (simp add: year_cells_def)
    have a: "i < length ?arr" "length (?arr ! i) = Suc j0 + length ys"
      using Cons.prems by simp_all
    have c: "list_all (\<lambda>cells. length cells = length grades) (drop (Suc j0) (?arr ! i))"
      using Cons.prems(1,3) dr by simp
    show ?thesis
      using Cons.IH[OF a c] Inr step Cons.prems(1) j0
      by (simp add: take_Suc_update split: sum.splits)
  qed
qed

lemma school_loop_collect:
  "length arr = i0 + length ss \<Longrightarrow>
   list_all (\<lambda>sl. length sl = length years \<and> list_all (\<lambda>cells. length cells = length grades) sl)
     (drop i0 arr) \<Longrightarrow>
   school_loop d grades years (enumerate i0 ss) arr =
     (case cube_cells d grades years ss of
        Inl e \<Rightarrow> Inl e
      | Inr slices \<Rightarrow> Inr (take i0 arr @ slices))"
proof (induction ss arbitrary: i0 arr)
  case Nil
  then show ?case by (simp add: cube_cells_def)
next
  case (Cons s ss)
  have i0: "i0 < length arr" using Cons.prems by simp
  have dr: "drop i0 arr = arr ! i0 # drop (Suc i0) arr"
    using i0 by (simp add: Cons_nth_drop_Suc)
  have len: "length (arr ! i0) = 0 + length years"
    and inner: "list_all (\<lambda>cells. length cells = length grades) (drop 0 (arr ! i0))"
    using Cons.prems(2) dr by simp_all
  note y = year_loop_collect[OF i0 len inner, of d s]
  show ?case
  proof (cases "school_cells d grades years s")
    case (Inl e)
    then show ?thesis using y by (simp add: school_cells_def cube_cells_def)
  next
    case (Inr rows)
    let ?arr = "arr[i0 := rows]"
    have step: "year_loop d grades i0 s (enumerate 0 years) arr = Inr ?arr"
      using y Inr by (simp add: school_cells_def)
    have a: "length ?arr = Suc i0 + length ss" using Cons.prems by simp
    have c: "list_all (\<lambda>sl. length sl = length years \<and> list_all (\<lambda>cells. length cells = length grades) sl)
        (drop (Suc i0) ?arr)"
      using Cons.prems(2) dr by simp
    show ?thesis
      using Cons.IH[OF a c] Inr step i0
      by (simp add: take_Suc_update cube_cells_def split: sum.splits)
  qed
qed

lemma np_empty_shape:
  "length (np_empty g ns ny ng) = ns"
  "list_all (\<lambda>sl. length sl = ny \<and> list_all (\<lambda>cells. length cells = ng) sl) (np_empty g ns ny ng)"
  by (simp_all add: np_empty_def list_all_iff)

text \<open>
  The method returns the table of cells, or raises the first exception a cell raises.
  Nothing of the uninitialised array is left.
\<close>

lemma create_enrollment_array_eq:
  "create_enrollment_array g self =
     (case cube_cells (data self) [Grade10, Grade11, Grade12]
             (unique (map School_Year (data self))) (unique (map School_Name (data self))) of
        Inl e \<Rightarrow> Inl e
      | Inr arr \<Rightarrow> Inr (self\<lparr>enrollment_array := Some arr\<rparr>))"
proof -
  let ?schools = "unique (map School_Name (data self))"
  let ?years = "unique (map School_Year (data self))"
  let ?arr = "np_empty g (length ?schools) (length ?years) (length [Grade10, Grade11, Grade12])"
  have "school_loop (data self) [Grade10, Grade11, Grade12] ?years (enumerate 0 ?schools) ?arr =
     (case cube_cells (data self) [Grade10, Grade11, Grade12] ?years ?schools of
        Inl e \<Rightarrow> Inl e | Inr slices \<Rightarrow> Inr (take 0 ?arr @ slices))"
    by (rule school_loop_collect) (simp_all only: np_empty_shape drop_0 add_0)
  then show ?thesis
    by (simp add: create_enrollment_array_def Let_def split: sum.splits)
qed

section \<open>The dictionary and the resolver\<close>

lemma keys_dict_set:
  "map fst (dict_set d k v) = (if k \<in> set (map fst d) then map fst d else map fst d @ [k])"
  by (induction d k v rule: dict_set.induct) auto

lemma keys_dict_comprehension:
  "map fst (dict_comprehension d ps) = unique_from (map fst d) (map fst ps)"
  by (induction d ps rule: dict_comprehension.induct) (simp_all add: keys_dict_set)

lemma keys_school_codes:
  "map fst (school_codes (SchoolStats_init d)) = unique (map School_Name d)"
  by (simp add: SchoolStats_init_def keys_dict_comprehension unique_def)

lemma unique_from_set: "set (unique_from seen xs) = set seen \<union> set xs"
  by (induction seen xs rule: unique_from.induct) auto

lemma unique_from_distinct: "distinct seen \<Longrightarrow> distinct (unique_from seen xs)"
  by (induction seen xs rule: unique_from.induct) auto

lemma set_unique: "set (unique xs) = set xs"
  by (simp add: unique_def unique_from_set)

lemma distinct_unique: "distinct (unique xs)"
  by (simp add: unique_def unique_from_distinct)

lemma unique_Nil_iff: "unique xs = [] \<longleftrightarrow> xs = []"
  by (metis set_unique set_empty)

lemma values_dict_set: "snd ` set (dict_set d k v) \<subseteq> insert v (snd ` set d)"
  by (induction d k v rule: dict_set.induct) auto

lemma values_dict_comprehension:
  "snd ` set (dict_comprehension d ps) \<subseteq> snd ` set d \<union> snd ` set ps"
proof (induction d ps rule: dict_comprehension.induct)
  case (1 d)
  then show ?case by simp
next
  case (2 d k v ps)
  then show ?case using values_dict_set[of d k v] by auto
qed

lemma values_school_codes:
  "snd ` set (school_codes (SchoolStats_init d)) \<subseteq> School_Code ` set d"
proof -
  have "snd ` set (zip (map School_Name d) (map School_Code d)) \<subseteq> School_Code ` set d"
    by (induction d) auto
  then show ?thesis
    using values_dict_comprehension[of "[]" "zip (map School_Name d) (map School_Code d)"]
    by (auto simp: SchoolStats_init_def)
qed

lemma next_name_Some: "next_name d c = Some n \<Longrightarrow> (n, c) \<in> set d"
  by (induction d c rule: next_name.induct) (auto split: if_splits)

lemma next_name_None: "next_name d c = None \<longleftrightarrow> c \<notin> snd ` set d"
  by (induction d c rule: next_name.induct) (auto split: if_splits)

lemma next_name_only:
  assumes "(n, c) \<in> set d" and only: "\<And>n'. (n', c) \<in> set d \<Longrightarrow> n' = n"
  shows "next_name d c = Some n"
proof (cases "next_name d c")
  case None
  then have "c \<notin> snd ` set d" by (simp add: next_name_None)
  then show ?thesis using assms(1) by force
next
  case (Some m)
  then show ?thesis using only[OF next_name_Some[OF Some]] by simp
qed

lemma list_index_Inr: "list_index xs x = Inr p \<Longrightarrow> p < length xs \<and> xs ! p = x"
  by (induction xs arbitrary: p) (auto split: if_splits sum.splits)

lemma list_index_mem: "x \<in> set xs \<Longrightarrow> \<exists>p. list_index xs x = Inr p"
  by (induction xs) (auto split: sum.splits)

lemma list_index_Inl: "list_index xs x = Inl e \<Longrightarrow> x \<notin> set xs"
  using list_index_mem[of x xs] by auto

lemma get_school_index_Name:
  "get_school_index self (Name n) =
     (if n \<in> set (map fst (school_codes self)) then list_index (map fst (school_codes self)) n
      else Inl invalid_school)"
  by (simp add: get_school_index_def)

lemma get_school_index_Inr:
  assumes "get_school_index self ident = Inr p"
  shows "p < length (school_codes self)"
    and "case ident of Name n \<Rightarrow> fst (school_codes self ! p) = n
         | Code c \<Rightarrow> next_name (school_codes self) c = Some (fst (school_codes self ! p))"
proof -
  obtain n where n: "(case ident of Code c \<Rightarrow> next_name (school_codes self) c | Name s \<Rightarrow> Some s) = Some n"
    and ix: "list_index (map fst (school_codes self)) n = Inr p"
    using assms by (auto simp: get_school_index_def Let_def split: option.splits if_splits)
  have p: "p < length (school_codes self)" "fst (school_codes self ! p) = n"
    using list_index_Inr[OF ix] by (simp_all add: nth_map[symmetric] del: nth_map)
  show "p < length (school_codes self)" by fact
  show "case ident of Name n \<Rightarrow> fst (school_codes self ! p) = n
         | Code c \<Rightarrow> next_name (school_codes self) c = Some (fst (school_codes self ! p))"
    using n p by (cases ident) auto
qed

lemma get_school_index_Inl:
  assumes "get_school_index self ident = Inl e"
  shows "e = invalid_school"
proof (rule ccontr)
  assume ne: "e \<noteq> invalid_school"
  then obtain n where "n \<in> set (map fst (school_codes self))"
    and "list_index (map fst (school_codes self)) n = Inl e"
    using assms by (auto simp: get_school_index_def Let_def split: option.splits if_splits)
  then show False using list_index_Inl by fastforce
qed

lemma remdups_snoc: "remdups (ys @ [x]) = filter (\<lambda>y. y \<noteq> x) (remdups ys) @ [x]"
  by (induction ys) auto

lemma first_occurrences_Cons:
  "rev (remdups (rev (x # xs))) = x # filter (\<lambda>y. y \<noteq> x) (rev (remdups (rev xs)))"
  by (simp add: remdups_snoc rev_filter)

lemma unique_from_first_occurrences:
  "unique_from seen xs = seen @ filter (\<lambda>y. y \<notin> set seen) (rev (remdups (rev xs)))"
proof (induction xs arbitrary: seen)
  case Nil
  then show ?case by simp
next
  case (Cons x xs)
  let ?g = "rev (remdups (rev xs))"
  show ?case
  proof (cases "x \<in> set seen")
    case True
    have "filter (\<lambda>y. y \<notin> set seen) (filter (\<lambda>y. y \<noteq> x) ?g) = filter (\<lambda>y. y \<notin> set seen) ?g"
      using True by (auto intro: filter_cong)
    then show ?thesis
      using True Cons.IH[of seen] by (simp only: first_occurrences_Cons unique_from.simps) simp
  next
    case False
    have "filter (\<lambda>y. y \<notin> set (seen @ [x])) ?g =
        filter (\<lambda>y. y \<notin> set seen) (filter (\<lambda>y. y \<noteq> x) ?g)"
      by (auto intro: filter_cong)
    then show ?thesis
      using False Cons.IH[of "seen @ [x]"] by (simp only: first_occurrences_Cons unique_from.simps) simp
  qed
qed

text \<open>The distinct values in order of first appearance.\<close>

lemma unique_first_occurrences: "unique xs = rev (remdups (rev xs))"
  by (simp add: unique_def unique_from_first_occurrences)

lemma distinct_keys_school_codes: "distinct (map fst (school_codes (SchoolStats_init d)))"
  by (simp add: keys_school_codes distinct_unique)

lemma map_of_dict_set: "map_of (dict_set d k v) = (map_of d)(k \<mapsto> v)"
  by (induction d k v rule: dict_set.induct) auto

lemma map_of_dict_comprehension: "map_of (dict_comprehension d ps) = map_of (rev ps @ d)"
proof (induction d ps rule: dict_comprehension.induct)
  case (1 d)
  then show ?case by simp
next
  case (2 d k v ps)
  then show ?case by (simp add: map_of_dict_set map_add_def fun_eq_iff split: option.splits)
qed

text \<open>The code of a name in the dictionary is the one of its last row.\<close>

lemma map_of_school_codes:
  "map_of (school_codes (SchoolStats_init d)) =
     map_of (rev (zip (map School_Name d) (map School_Code d)))"
  by (simp add: SchoolStats_init_def map_of_dict_comprehension)

lemma distinct_keys_position:
  "distinct (map fst d) \<Longrightarrow> p < length d \<Longrightarrow> q < length d \<Longrightarrow>
   fst (d ! p) = fst (d ! q) \<Longrightarrow> p = q"
  using nth_eq_iff_index_eq[of "map fst d" p q] by simp

lemma list_index_nth:
  "distinct xs \<Longrightarrow> p < length xs \<Longrightarrow> list_index xs (xs ! p) = Inr p"
proof (induction xs arbitrary: p)
  case Nil
  then show ?case by simp
next
  case (Cons x xs)
  show ?case
  proof (cases p)
    case 0
    then show ?thesis by simp
  next
    case (Suc q)
    then have "xs ! q \<noteq> x" using Cons.prems by auto
    then show ?thesis using Suc Cons by simp
  qed
qed

lemma next_name_first:
  "p < length d \<Longrightarrow> snd (d ! p) = c \<Longrightarrow> (\<And>q. q < p \<Longrightarrow> snd (d ! q) \<noteq> c) \<Longrightarrow>
   next_name d c = Some (fst (d ! p))"
proof (induction d arbitrary: p)
  case Nil
  then show ?case by simp
next
  case (Cons e d)
  obtain k v where e: "e = (k, v)" by (cases e)
  show ?case
  proof (cases p)
    case 0
    then show ?thesis using Cons.prems(2) e by simp
  next
    case (Suc p')
    have v: "v \<noteq> c" using Cons.prems(3)[of 0] Suc e by simp
    have "next_name d c = Some (fst (d ! p'))"
    proof (rule Cons.IH)
      show "p' < length d" using Cons.prems(1) Suc by simp
      show "snd (d ! p') = c" using Cons.prems(2) Suc by simp
      show "snd (d ! q) \<noteq> c" if "q < p'" for q
        using Cons.prems(3)[of "Suc q"] that Suc by simp
    qed
    then show ?thesis using v Suc e by simp
  qed
qed

lemma next_name_position:
  "next_name d c = Some n \<Longrightarrow>
   \<exists>p<length d. d ! p = (n, c) \<and> (\<forall>q<p. snd (d ! q) \<noteq> c)"
proof (induction d)
  case Nil
  then show ?case by simp
next
  case (Cons e d)
  obtain k v where e: "e = (k, v)" by (cases e)
  show ?case
  proof (cases "v = c")
    case True
    then have "n = k" using Cons.prems e by simp
    then have "(e # d) ! 0 = (n, c) \<and> (\<forall>q<0. snd ((e # d) ! q) \<noteq> c)"
      using True e by simp
    then show ?thesis by (intro exI[of _ 0]) simp
  next
    case False
    then have "next_name d c = Some n" using Cons.prems e by simp
    then obtain p where p: "p < length d" "d ! p = (n, c)" "\<forall>q<p. snd (d ! q) \<noteq> c"
      using Cons.IH by blast
    have "\<forall>q<Suc p. snd ((e # d) ! q) \<noteq> c"
    proof (intro allI impI)
      fix q assume "q < Suc p"
      then show "snd ((e # d) ! q) \<noteq> c"
        using p(3) False e by (cases q) simp_all
    qed
    then show ?thesis using p(1,2) by (intro exI[of _ "Suc p"]) simp
  qed
qed

lemma school_codes_district:
  "school_codes (SchoolStats_init district_table) = [(''West'', 5), (''North'', 1), (''South'', 1)]"
  by (simp add: SchoolStats_init_def district_table_def)

lemma school_codes_lincoln:
  "school_codes (SchoolStats_init lincoln_table) = [(''Lincoln'', 100)]"
  by (simp add: SchoolStats_init_def lincoln_table_def)

lemma school_codes_shared:
  "school_codes (SchoolStats_init shared_code_table) = [(''North'', 1), (''South'', 1)]"
  by (simp add: SchoolStats_init_def shared_code_table_def)

section \<open>Cells and example arrays\<close>

lemma cell_value_missing:
  "None \<in> set (selected d school year g) \<Longrightarrow> cell_value d school year g = Inr 0"
  by (simp add: cell_value_def list_ex_iff)

lemma cell_value_no_row:
  "selected d school year g = [] \<Longrightarrow> cell_value d school year g = Inl series_not_scalar"
  by (simp add: cell_value_def)

lemma data_init: "data (SchoolStats_init d) = d"
  by (simp add: SchoolStats_init_def)

lemma create_district_stats:
  "create_enrollment_array g (SchoolStats_init district_table) = Inr district_stats"
  by (simp add: create_enrollment_array_eq cube_cells_def school_cells_def year_cells_def
      cell_value_def selected_def unique_def district_table_def district_stats_def
      SchoolStats_init_def)

lemma cube_cells_lincoln:
  "cube_cells lincoln_table [Grade10, Grade11, Grade12]
     (unique (map School_Year lincoln_table)) (unique (map School_Name lincoln_table)) =
   Inr [[[400, 420, 600], [450, 0, 610]]]"
  by (simp add: cube_cells_def school_cells_def year_cells_def cell_value_def selected_def
      unique_def lincoln_table_def)

lemma create_lincoln:
  "create_enrollment_array g (SchoolStats_init lincoln_table) =
   Inr ((SchoolStats_init lincoln_table)\<lparr>enrollment_array := Some [[[400, 420, 600], [450, 0, 610]]]\<rparr>)"
  by (simp add: create_enrollment_array_eq data_init cube_cells_lincoln)

section \<open>Rounding to float64\<close>

lemma round_half_even_of_int: "round_half_even (of_int k) = k"
  by (simp add: round_half_even_def)

lemma f64_exponent_lower:
  assumes "q \<noteq> 0"
  shows "2 powi (f64_exponent q) \<le> \<bar>q\<bar>"
proof (cases "1 \<le> \<bar>q\<bar>")
  case True
  let ?n = "\<lfloor>\<bar>q\<bar>\<rfloor>"
  have n: "0 < ?n" using True by simp
  have b: "1 \<le> bitlen ?n" using n by (auto simp: bitlen_alt_def)
  have "(2::int) ^ nat (bitlen ?n - 1) \<le> ?n" using bitlen_bounds[OF n] by simp
  then have "(of_int ((2::int) ^ nat (bitlen ?n - 1)) :: rat) \<le> of_int ?n" by (simp only: of_int_le_iff)
  also have "\<dots> \<le> \<bar>q\<bar>" by simp
  finally have "(2::rat) ^ nat (bitlen ?n - 1) \<le> \<bar>q\<bar>" by simp
  moreover have "(2::rat) powi (bitlen ?n - 1) = 2 ^ nat (bitlen ?n - 1)"
    using b by (simp add: power_int_nonneg_exp)
  ultimately show ?thesis using True by (simp add: f64_exponent_def)
next
  case False
  let ?x = "1 / \<bar>q\<bar>"
  let ?m = "\<lceil>?x\<rceil> - 1"
  have q: "0 < \<bar>q\<bar>" "\<bar>q\<bar> < 1" using assms False by simp_all
  then have x: "1 < ?x" by simp
  then have m: "0 < ?m" by (simp add: less_ceiling_iff)
  have "?m < 2 ^ nat (bitlen ?m)" using bitlen_bounds[OF m] by simp
  then have "\<lceil>?x\<rceil> \<le> 2 ^ nat (bitlen ?m)" by simp
  then have "?x \<le> of_int (2 ^ nat (bitlen ?m))" by (simp only: ceiling_le_iff)
  then have le: "?x \<le> 2 ^ nat (bitlen ?m)" by simp
  have "1 \<le> 2 ^ nat (bitlen ?m) * \<bar>q\<bar>"
    using le q(1) by (simp add: field_simps)
  then have "1 / 2 ^ nat (bitlen ?m) \<le> \<bar>q\<bar>"
    by (simp add: field_simps)
  moreover have "(2::rat) powi (- bitlen ?m) = 1 / 2 ^ nat (bitlen ?m)"
    using bitlen_nonneg[of ?m] by (simp add: power_int_minus_divide power_int_nonneg_exp)
  ultimately show ?thesis using False by (simp add: f64_exponent_def)
qed

lemma f64_exponent_upper:
  assumes "q \<noteq> 0"
  shows "\<bar>q\<bar> < 2 powi (f64_exponent q + 1)"
proof (cases "1 \<le> \<bar>q\<bar>")
  case True
  let ?n = "\<lfloor>\<bar>q\<bar>\<rfloor>"
  have n: "0 < ?n" using True by simp
  have "?n < 2 ^ nat (bitlen ?n)" using bitlen_bounds[OF n] by simp
  then have "?n + 1 \<le> 2 ^ nat (bitlen ?n)" by simp
  then have "(of_int (?n + 1) :: rat) \<le> of_int (2 ^ nat (bitlen ?n))" by (simp only: of_int_le_iff)
  moreover have "\<bar>q\<bar> < of_int (?n + 1)" by linarith
  ultimately have "\<bar>q\<bar> < 2 ^ nat (bitlen ?n)" by simp
  moreover have "(2::rat) powi (bitlen ?n) = 2 ^ nat (bitlen ?n)"
    using bitlen_nonneg[of ?n] by (simp add: power_int_nonneg_exp)
  ultimately show ?thesis using True by (simp add: f64_exponent_def)
next
  case False
  let ?x = "1 / \<bar>q\<bar>"
  let ?m = "\<lceil>?x\<rceil> - 1"
  have q: "0 < \<bar>q\<bar>" "\<bar>q\<bar> < 1" using assms False by simp_all
  then have x: "1 < ?x" by simp
  then have m: "0 < ?m" by (simp add: less_ceiling_iff)
  have b: "1 \<le> bitlen ?m" using m by (auto simp: bitlen_alt_def)
  have "(2::int) ^ nat (bitlen ?m - 1) \<le> ?m" using bitlen_bounds[OF m] by simp
  then have "(2::int) ^ nat (bitlen ?m - 1) < \<lceil>?x\<rceil>" by simp
  then have "of_int ((2::int) ^ nat (bitlen ?m - 1)) < ?x" by (simp only: less_ceiling_iff)
  then have lt: "2 ^ nat (bitlen ?m - 1) < ?x" by simp
  have "2 ^ nat (bitlen ?m - 1) * \<bar>q\<bar> < 1"
    using lt q(1) by (simp add: field_simps)
  then have "\<bar>q\<bar> < 1 / 2 ^ nat (bitlen ?m - 1)"
    by (simp add: field_simps)
  moreover have "(2::rat) powi (- bitlen ?m + 1) = 1 / 2 ^ nat (bitlen ?m - 1)"
  proof -
    have "- bitlen ?m + 1 = - (bitlen ?m - 1)" by simp
    then show ?thesis using b by (simp only: power_int_minus_divide) (simp add: power_int_nonneg_exp)
  qed
  ultimately show ?thesis using False by (simp add: f64_exponent_def)
qed

lemma f64_representable_strict:
  assumes "\<bar>m\<bar> < 2 ^ 53"
  shows "f64 (of_int m * 2 powi j) = of_int m * 2 powi j"
proof (cases "m = 0")
  case True
  then show ?thesis by (simp add: f64_def)
next
  case False
  define q :: rat where "q = of_int m * 2 powi j"
  define e where "e = f64_exponent q"
  have q0: "q \<noteq> 0" using False by (simp add: q_def)
  have "2 powi e \<le> \<bar>q\<bar>" unfolding e_def by (rule f64_exponent_lower[OF q0])
  also have "\<bar>q\<bar> = of_int \<bar>m\<bar> * 2 powi j" by (simp add: q_def abs_mult)
  also have "\<dots> < 2 ^ 53 * 2 powi j"
  proof -
    have "(of_int \<bar>m\<bar> :: rat) < of_int (2 ^ 53)" using assms by (simp only: of_int_less_iff)
    then show ?thesis by simp
  qed
  also have "\<dots> = 2 powi (53 + j)" by (simp add: power_int_add)
  finally have lt: "(2::rat) powi e < 2 powi (53 + j)" .
  have "e < 53 + j"
  proof (rule ccontr)
    assume "\<not> e < 53 + j"
    then have "53 + j \<le> e" by simp
    then have "(2::rat) powi (53 + j) \<le> 2 powi e" by (rule power_int_increasing) simp
    then show False using lt by simp
  qed
  then have "0 \<le> j - (e - 52)" by simp
  then obtain d where d: "j - (e - 52) = int d"
    using nonneg_int_cases by blast
  have "int d + (e - 52) = j" using d by simp
  then have "(2::rat) powi j = 2 powi (int d + (e - 52))" by simp
  also have "\<dots> = 2 powi (int d) * 2 powi (e - 52)" by (rule power_int_add) simp
  finally have p: "(2::rat) powi j = 2 ^ d * 2 powi (e - 52)" by simp
  have u0: "(2::rat) powi (e - 52) \<noteq> 0" by (simp add: power_int_not_zero)
  have "q / 2 powi (e - 52) = of_int m * 2 ^ d"
    unfolding q_def p using u0 by simp
  also have "\<dots> = of_int (m * 2 ^ d)" by simp
  finally have r: "round_half_even (q / 2 powi (e - 52)) = m * 2 ^ d"
    by (simp only: round_half_even_of_int)
  have "f64 q = of_int (round_half_even (q / 2 powi (e - 52))) * 2 powi (e - 52)"
    using q0 by (simp add: f64_def Let_def e_def)
  also have "\<dots> = of_int m * 2 ^ d * 2 powi (e - 52)"
    unfolding r by simp
  also have "\<dots> = q" unfolding q_def p by simp
  finally show ?thesis by (simp only: q_def)
qed

lemma f64_representable:
  assumes "\<bar>m\<bar> \<le> 2 ^ 53"
  shows "f64 (of_int m * 2 powi j) = of_int m * 2 powi j"
proof (cases "\<bar>m\<bar> < 2 ^ 53")
  case True
  then show ?thesis by (rule f64_representable_strict)
next
  case False
  then have "m = 2 ^ 53 \<or> m = - (2 ^ 53)" using assms by auto
  then have "(of_int m :: rat) * 2 powi j = of_int (if 0 < m then 1 else - 1) * 2 powi (j + 53)"
    by (auto simp: power_int_add)
  moreover have "f64 (of_int (if 0 < m then 1 else - 1) * 2 powi (j + 53)) =
      of_int (if 0 < m then 1 else - 1) * 2 powi (j + 53)"
    by (rule f64_representable_strict) simp
  ultimately show ?thesis by simp
qed

lemma f64_of_int: "\<bar>m\<bar> \<le> 2 ^ 53 \<Longrightarrow> f64 (of_int m) = of_int m"
  using f64_representable[of m 0] by simp

lemma f64_half: "\<bar>m\<bar> \<le> 2 ^ 53 \<Longrightarrow> f64 (of_int m / 2) = of_int m / 2"
  using f64_representable[of m "- 1"] by (simp add: power_int_minus_divide)

lemma f64_exponent_2_53_1: "f64_exponent 9007199254740993 = 53"
proof -
  have "bitlen 9007199254740993 = 54"
  proof -
    show ?thesis using bitlen_twopow_add_eq[of 1 53] by simp
  qed
  then show ?thesis by (simp add: f64_exponent_def)
qed

lemma f64_2_53_1: "f64 9007199254740993 = 9007199254740992"
proof -
  have "(9007199254740993 :: rat) / 2 = of_int 9007199254740993 / of_int 2" by simp
  then have fl: "\<lfloor>(9007199254740993 :: rat) / 2\<rfloor> = 4503599627370496"
    by (simp only: floor_divide_of_int_eq)
  have "round_half_even (9007199254740993 / 2) = 4503599627370496"
    by (simp add: round_half_even_def Let_def fl)
  then show ?thesis
    by (simp add: f64_def f64_exponent_2_53_1 Let_def)
qed

section \<open>Medians, sums and the statistics of one school\<close>

lemma py_int_Fl: "py_int (Fl q) = Inr (truncate_toward_zero q)"
  by (simp add: truncate_toward_zero_def ceiling_def)

lemma truncate_of_int: "truncate_toward_zero (of_int a) = a"
  by (simp add: truncate_toward_zero_def)

lemma truncate_half_nonneg:
  "0 \<le> a + b \<Longrightarrow> truncate_toward_zero ((of_int a + of_int b) / 2) = (a + b) div 2"
proof -
  assume nn: "0 \<le> a + b"
  have "(of_int a + of_int b) / (2::rat) = of_int (a + b) / of_int 2" by simp
  moreover have "\<not> (of_int (a + b) / of_int 2 < (0::rat))" using nn by simp
  ultimately show ?thesis
    by (simp only: truncate_toward_zero_def floor_divide_of_int_eq if_False)
qed

lemma f64_sum_exact:
  "\<bar>acc\<bar> + sum_list (map abs xs) \<le> 2 ^ 53 \<Longrightarrow>
   foldl f64_add (of_int acc) (map (\<lambda>x. f64 (of_int x)) xs) = of_int (acc + sum_list xs)"
proof (induction xs arbitrary: acc)
  case Nil
  then show ?case by simp
next
  case (Cons x xs)
  have x: "\<bar>x\<bar> \<le> 2 ^ 53" and ax: "\<bar>acc + x\<bar> \<le> 2 ^ 53"
    and rest: "\<bar>acc + x\<bar> + sum_list (map abs xs) \<le> 2 ^ 53"
    using Cons.prems sum_list_abs[of xs] by simp_all
  have "f64_add (of_int acc) (f64 (of_int x)) = f64 (of_int (acc + x))"
    by (simp add: f64_add_def f64_of_int[OF x])
  also have "\<dots> = of_int (acc + x)" by (rule f64_of_int[OF ax])
  finally show ?case using Cons.IH[OF rest] by (simp add: add.assoc)
qed

lemma np_mean_exact:
  assumes "xs \<noteq> []" and "sum_list (map abs xs) \<le> 2 ^ 53"
  shows "np_mean xs = Fl (f64 (of_int (sum_list xs) / of_nat (length xs)))"
  using assms f64_sum_exact[of 0 xs] by (simp add: np_mean_def)

lemma np_mean_divisible:
  assumes "xs \<noteq> []" and "sum_list (map abs xs) \<le> 2 ^ 53"
    and "sum_list xs mod int (length xs) = 0"
  shows "np_mean xs = Fl (of_int (sum_list xs div int (length xs)))"
proof -
  let ?n = "int (length xs)"
  let ?k = "sum_list xs div ?n"
  have n: "0 < ?n" using assms(1) by simp
  have s: "sum_list xs = ?k * ?n" using assms(3) by auto
  have "\<bar>?k\<bar> \<le> \<bar>sum_list xs\<bar>"
    using n s by (metis abs_mult abs_of_pos mult.right_neutral mult_left_mono abs_ge_zero
        zless_imp_add1_zle add.left_neutral)
  also have "\<dots> \<le> sum_list (map abs xs)" by (rule sum_list_abs)
  finally have k: "\<bar>?k\<bar> \<le> 2 ^ 53" using assms(2) by simp
  have "(of_int (sum_list xs) :: rat) / of_nat (length xs) = of_int ?k"
  proof -
    have "(of_int (sum_list xs) :: rat) = of_int ?k * of_int ?n"
      using s by (metis of_int_mult)
    then show ?thesis using n by simp
  qed
  then show ?thesis
    using np_mean_exact[OF assms(1,2)] f64_of_int[OF k] by simp
qed

lemma np_mean_one: "\<bar>a\<bar> \<le> 2 ^ 53 \<Longrightarrow> np_mean [a] = Fl (of_int a)"
  using np_mean_divisible[of "[a]"] by simp

lemma np_mean_two:
  assumes "\<bar>a\<bar> + \<bar>b\<bar> \<le> 2 ^ 53"
  shows "np_mean [a, b] = Fl ((of_int a + of_int b) / 2)"
proof -
  have "\<bar>a + b\<bar> \<le> 2 ^ 53" using assms by simp
  then have "f64 (of_int (a + b) / 2) = of_int (a + b) / 2" by (rule f64_half)
  then show ?thesis using np_mean_exact[of "[a, b]"] assms by simp
qed

lemma np_mean_Fl: "xs \<noteq> [] \<Longrightarrow> \<exists>q. np_mean xs = Fl q"
  by (simp add: np_mean_def)

lemma median_slices:
  assumes "xs \<noteq> []"
  shows "odd (length xs) \<Longrightarrow>
           take 1 (drop (length xs div 2) (sort xs)) = [sort xs ! (length xs div 2)]"
    and "even (length xs) \<Longrightarrow>
           take 2 (drop (length xs div 2 - 1) (sort xs)) =
             [sort xs ! (length xs div 2 - 1), sort xs ! (length xs div 2)]"
proof -
  let ?s = "sort xs"
  let ?n = "length xs"
  have n: "length ?s = ?n" "0 < ?n" using assms by simp_all
  show "take 1 (drop (?n div 2) ?s) = [?s ! (?n div 2)]" if "odd ?n"
  proof -
    have "?n div 2 < length ?s" using n by simp
    then show ?thesis by (simp add: Cons_nth_drop_Suc[symmetric])
  qed
  show "take 2 (drop (?n div 2 - 1) ?s) = [?s ! (?n div 2 - 1), ?s ! (?n div 2)]" if ev: "even ?n"
  proof -
    obtain b where b: "?n = 2 * b" using ev by (auto elim: evenE)
    have "b \<noteq> 0" using n(2) unfolding b by simp
    then have two: "2 \<le> ?n" using b by simp
    let ?i = "?n div 2"
    have i: "?i < length ?s" "?i - 1 < length ?s" "Suc (?i - 1) = ?i" using two by auto
    have "drop (?i - 1) ?s = ?s ! (?i - 1) # ?s ! ?i # drop (Suc ?i) ?s"
      using i by (metis Cons_nth_drop_Suc)
    then show ?thesis by (simp add: numeral_2_eq_2)
  qed
qed

lemma np_median_slices:
  assumes "xs \<noteq> []"
  shows "np_median xs =
     (if odd (length xs) then np_mean [sort xs ! (length xs div 2)]
      else np_mean [sort xs ! (length xs div 2 - 1), sort xs ! (length xs div 2)])"
proof (cases "odd (length xs)")
  case True
  then show ?thesis
    using median_slices(1)[OF assms True]
    by (simp add: np_median_def Let_def odd_iff_mod_2_eq_one)
next
  case False
  then have "length xs mod 2 \<noteq> 1" by (simp add: odd_iff_mod_2_eq_one)
  then show ?thesis
    using median_slices(2)[OF assms] False
    by (simp add: np_median_def Let_def)
qed

lemma np_median_Fl: "xs \<noteq> [] \<Longrightarrow> \<exists>q. np_median xs = Fl q"
  by (simp add: np_median_slices np_mean_Fl)

lemma py_int_np_median_Inr: "xs \<noteq> [] \<Longrightarrow> \<exists>m. py_int (np_median xs) = Inr m"
  using np_median_Fl[of xs] by auto

text \<open>
  Where the middle values are small enough for float64 to hold them and their sum, the
  float64 median is the exact one.
\<close>

lemma np_median_eq:
  assumes "xs \<noteq> []"
    and "odd (length xs) \<Longrightarrow> \<bar>sort xs ! (length xs div 2)\<bar> \<le> 2 ^ 53"
    and "even (length xs) \<Longrightarrow>
           \<bar>sort xs ! (length xs div 2 - 1)\<bar> + \<bar>sort xs ! (length xs div 2)\<bar> \<le> 2 ^ 53"
  shows "np_median xs =
     (if odd (length xs) then Fl (of_int (sort xs ! (length xs div 2)))
      else Fl ((of_int (sort xs ! (length xs div 2 - 1)) + of_int (sort xs ! (length xs div 2))) / 2))"
  using assms(2,3) by (simp add: np_median_slices[OF assms(1)] np_mean_one np_mean_two)

lemma py_int_np_median:
  assumes "xs \<noteq> []"
    and "odd (length xs) \<Longrightarrow> \<bar>sort xs ! (length xs div 2)\<bar> \<le> 2 ^ 53"
    and "even (length xs) \<Longrightarrow>
           \<bar>sort xs ! (length xs div 2 - 1)\<bar> + \<bar>sort xs ! (length xs div 2)\<bar> \<le> 2 ^ 53"
  shows "py_int (np_median xs) = Inr (integer_median (mset xs))"
  by (simp add: np_median_eq[OF assms] integer_median_def Let_def py_int_Fl truncate_of_int
      del: py_int.simps)

lemma small_values_exact:
  fixes xs :: "int list"
  assumes "xs \<noteq> []" and "list_all (\<lambda>v. \<bar>v\<bar> \<le> 2 ^ 52) xs"
  shows "odd (length xs) \<Longrightarrow> \<bar>sort xs ! (length xs div 2)\<bar> \<le> 2 ^ 53"
    and "even (length xs) \<Longrightarrow>
           \<bar>sort xs ! (length xs div 2 - 1)\<bar> + \<bar>sort xs ! (length xs div 2)\<bar> \<le> 2 ^ 53"
proof -
  have b: "\<bar>sort xs ! k\<bar> \<le> 2 ^ 52" if "k < length xs" for k
  proof -
    have "sort xs ! k \<in> set (sort xs)" using that by (intro nth_mem) simp
    then show ?thesis using assms(2) by (simp add: list_all_iff)
  qed
  have n: "0 < length xs" using assms(1) by simp
  have h: "length xs div 2 < length xs" "length xs div 2 - 1 < length xs" using n by linarith+
  show "\<bar>sort xs ! (length xs div 2)\<bar> \<le> 2 ^ 53" if "odd (length xs)"
    using b[OF h(1)] by simp
  show "\<bar>sort xs ! (length xs div 2 - 1)\<bar> + \<bar>sort xs ! (length xs div 2)\<bar> \<le> 2 ^ 53"
    if "even (length xs)"
    using b[OF h(1)] b[OF h(2)] by simp
qed


lemma calculate_school_stats_Inr:
  assumes "calculate_school_stats self ident = Inr stats"
  shows "\<exists>i arr. get_school_index self ident = Inr i \<and> enrollment_array self = Some arr \<and>
           i < length arr \<and>
           total_enrollment stats = np_sum (concat (arr ! i)) \<and>
           yearly_totals stats = map np_sum (arr ! i) \<and>
           enrollments_over_500 stats = filter (\<lambda>v. 500 < v) (concat (arr ! i)) \<and>
           Inr (median_over_500 stats) =
             (if enrollments_over_500 stats = [] then Inr (Marker ''No enrollments over 500'')
              else map_sum id Number (py_int (np_median (enrollments_over_500 stats))))"
proof -
  obtain i where i: "get_school_index self ident = Inr i"
    using assms by (cases "get_school_index self ident") (simp_all add: calculate_school_stats_def)
  obtain arr where arr: "enrollment_array self = Some arr"
    using assms i
    by (cases "enrollment_array self")
       (simp_all add: calculate_school_stats_def Let_def split: if_splits option.splits)
  have il: "i < length arr"
    using assms i arr
    by (simp add: calculate_school_stats_def Let_def split: if_splits option.splits)
  let ?over = "filter (\<lambda>v. 500 < v) (concat (arr ! i))"
  have rest: "total_enrollment stats = np_sum (concat (arr ! i)) \<and>
           yearly_totals stats = map np_sum (arr ! i) \<and>
           enrollments_over_500 stats = ?over \<and>
           Inr (median_over_500 stats) =
             (if ?over = [] then Inr (Marker ''No enrollments over 500'')
              else map_sum id Number (py_int (np_median ?over)))"
  proof (cases "?over = []")
    case True
    then show ?thesis
      using assms i arr il
      by (auto simp: calculate_school_stats_def Let_def split: if_splits option.splits sum.splits)
  next
    case False
    then obtain m where m: "py_int (np_median ?over) = Inr m"
      using py_int_np_median_Inr by blast
    show ?thesis
      using assms i arr il False m
      by (auto simp: calculate_school_stats_def Let_def split: if_splits option.splits sum.splits)
  qed
  show ?thesis using i arr il rest by simp
qed

lemma calculate_school_stats_total:
  assumes i: "get_school_index self ident = Inr i"
    and arr: "enrollment_array self = Some arr"
    and il: "i < length arr"
    and ne: "concat (arr ! i) \<noteq> []"
  shows "\<exists>stats. calculate_school_stats self ident = Inr stats"
proof -
  have ilen: "i < length (school_codes self)"
    by (rule get_school_index_Inr(1)[OF i])
  then have "fst (school_codes self ! i) \<in> fst ` set (school_codes self)"
    by simp
  then obtain code where code: "map_of (school_codes self) (fst (school_codes self ! i)) = Some code"
    by (metis map_of_eq_None_iff not_Some_eq)
  obtain x xs where cells: "concat (arr ! i) = x # xs"
    using ne by (cases "concat (arr ! i)") simp_all
  let ?over = "filter (\<lambda>v. 500 < v) (x # xs)"
  show ?thesis
  proof (cases "?over = []")
    case True
    then show ?thesis
      using i ilen code arr il cells
      by (simp add: calculate_school_stats_def Let_def)
  next
    case False
    then obtain m where m: "py_int (np_median ?over) = Inr m"
      using py_int_np_median_Inr by blast
    show ?thesis
      using i ilen code arr il cells False m
      by (simp add: calculate_school_stats_def Let_def)
  qed
qed

text \<open>
  The median field of a returned record, for the school at position \<open>i\<close> of the array.
\<close>

lemma median_over_500_of:
  assumes "calculate_school_stats self ident = Inr stats"
    and "get_school_index self ident = Inr i" and "enrollment_array self = Some arr"
  shows "enrollments_over_500 stats = filter (\<lambda>v. 500 < v) (concat (arr ! i))"
    and "Inr (median_over_500 stats) =
           (if enrollments_over_500 stats = [] then Inr (Marker ''No enrollments over 500'')
            else map_sum id Number (py_int (np_median (enrollments_over_500 stats))))"
  using calculate_school_stats_Inr[OF assms(1)] assms(2,3) by auto

lemma wrap64_cong: "x mod 2 ^ 64 = y mod 2 ^ 64 \<Longrightarrow> wrap64 x = wrap64 y"
proof -
  assume "x mod 2 ^ 64 = y mod 2 ^ 64"
  then have "(x + 2 ^ 63) mod 2 ^ 64 = (y + 2 ^ 63) mod 2 ^ 64"
    by (rule mod_add_cong) simp
  then show ?thesis by (simp only: wrap64_def)
qed

lemma wrap64_mod: "wrap64 x mod 2 ^ 64 = x mod 2 ^ 64"
proof -
  have "wrap64 x mod 2 ^ 64 = ((x + 2 ^ 63) mod 2 ^ 64 - 2 ^ 63) mod 2 ^ 64"
    by (simp only: wrap64_def)
  also have "\<dots> = (x + 2 ^ 63 - 2 ^ 63) mod 2 ^ 64"
    by (rule mod_diff_left_eq)
  finally show ?thesis by simp
qed

lemma wrap64_id: "- (2 ^ 63) \<le> x \<Longrightarrow> x < 2 ^ 63 \<Longrightarrow> wrap64 x = x"
  by (simp add: wrap64_def)

lemma sum_list_map_wrap64:
  "sum_list (map (\<lambda>xs. wrap64 (sum_list xs)) xss) mod 2 ^ 64 = sum_list (concat xss) mod 2 ^ 64"
proof (induction xss)
  case Nil
  then show ?case by simp
next
  case (Cons xs xss)
  have "(wrap64 (sum_list xs) + sum_list (map (\<lambda>xs. wrap64 (sum_list xs)) xss)) mod 2 ^ 64 =
        (sum_list xs + sum_list (concat xss)) mod 2 ^ 64"
    by (rule mod_add_cong[OF wrap64_mod Cons.IH])
  then show ?case by simp
qed

lemma np_sum_yearly: "np_sum (map np_sum sl) = np_sum (concat sl)"
  unfolding np_sum_def by (rule wrap64_cong) (rule sum_list_map_wrap64)

lemma sum_list_concat_rows: "sum_list (concat sl) = sum_list (map sum_list sl)"
  for sl :: "int list list"
  by (induction sl) simp_all

lemma slice_sum_concat: "slice_sum sl = sum_list (concat sl)"
proof -
  have "sum_list (concat sl) = sum_list (map sum_list sl)"
    by (rule sum_list_concat_rows)
  also have "\<dots> = (\<Sum>j<length sl. sum_list (sl ! j))"
    by (simp add: sum_list_sum_nth atLeast0LessThan)
  also have "\<dots> = (\<Sum>j<length sl. \<Sum>k<length (sl ! j). sl ! j ! k)"
    by (simp add: sum_list_sum_nth atLeast0LessThan)
  finally show ?thesis by (simp add: slice_sum_def)
qed

lemma get_school_index_lincoln: "get_school_index lincoln_stats (Name ''Lincoln'') = Inr 0"
  by (simp add: get_school_index_def lincoln_stats_def)

lemma create_lincoln_stats:
  "create_enrollment_array g (SchoolStats_init lincoln_table) = Inr lincoln_stats"
  by (subst create_lincoln) (simp add: lincoln_stats_def SchoolStats_init_def lincoln_table_def)

lemma median_600_610: "py_int (np_median [600, 610]) = Inr 605"
proof -
  have "np_median [600, 610] = Fl ((of_int 600 + of_int 610) / 2)"
    by (rule trans[OF np_median_slices]) (simp_all add: np_mean_two)
  then show ?thesis by simp
qed

lemma means_lincoln:
  "np_mean [400, 450] = Fl 425" "np_mean [420, 0] = Fl 210" "np_mean [600, 610] = Fl 605"
  "np_mean [1420, 1060] = Fl 1240"
  by (simp_all add: np_mean_divisible)

lemma calculate_lincoln:
  "calculate_school_stats lincoln_stats (Name ''Lincoln'') =
     Inr \<lparr> school_name = ''Lincoln'', school_code = 100,
           mean_grade_10 = Fl 425, mean_grade_11 = Fl 210, mean_grade_12 = Fl 605,
           highest_enrollment = 610, lowest_enrollment = 0,
           yearly_totals = [1420, 1060], total_enrollment = 2480,
           mean_yearly_enrollment = Fl 1240,
           enrollments_over_500 = [600, 610], median_over_500 = Number 605 \<rparr>"
  by (simp add: calculate_school_stats_def get_school_index_lincoln Let_def)
     (simp add: lincoln_stats_def np_sum_def wrap64_id means_lincoln grade_column_def median_600_610)


lemma create_riverside_stats:
  "create_enrollment_array g (SchoolStats_init riverside_table) = Inr riverside_stats"
  by (simp add: create_enrollment_array_eq cube_cells_def school_cells_def year_cells_def
      cell_value_def selected_def unique_def riverside_table_def riverside_stats_def SchoolStats_init_def)

lemma create_hillcrest_stats:
  "create_enrollment_array g (SchoolStats_init hillcrest_table) = Inr hillcrest_stats"
  by (simp add: create_enrollment_array_eq cube_cells_def school_cells_def year_cells_def
      cell_value_def selected_def unique_def hillcrest_table_def hillcrest_stats_def SchoolStats_init_def)

lemma get_school_index_riverside: "get_school_index riverside_stats (Code 200) = Inr 0"
  by (simp add: get_school_index_def riverside_stats_def)

lemma get_school_index_hillcrest: "get_school_index hillcrest_stats (Name ''Hillcrest'') = Inr 0"
  by (simp add: get_school_index_def hillcrest_stats_def)

lemma calculate_riverside:
  "calculate_school_stats riverside_stats (Code 200) =
     Inr \<lparr> school_name = ''Riverside'', school_code = 200,
           mean_grade_10 = Fl 100, mean_grade_11 = Fl 200, mean_grade_12 = Fl 0,
           highest_enrollment = 200, lowest_enrollment = 0,
           yearly_totals = [300], total_enrollment = 300,
           mean_yearly_enrollment = Fl 300,
           enrollments_over_500 = [], median_over_500 = Marker ''No enrollments over 500'' \<rparr>"
  by (simp add: calculate_school_stats_def get_school_index_riverside Let_def)
     (simp add: riverside_stats_def np_sum_def wrap64_id np_mean_one grade_column_def)

lemma median_501_502: "py_int (np_median [501, 502]) = Inr 501"
proof -
  have "py_int (np_median [501, 502]) = Inr (integer_median (mset [501, 502]))"
    by (rule py_int_np_median) simp_all
  also have "integer_median (mset [501, 502]) = truncate_toward_zero ((of_int 501 + of_int 502) / 2)"
    by (simp add: integer_median_def)
  also have "\<dots> = (501 + 502) div 2"
    by (rule truncate_half_nonneg) simp
  finally show ?thesis by simp
qed

lemma calculate_hillcrest:
  "calculate_school_stats hillcrest_stats (Name ''Hillcrest'') =
     Inr \<lparr> school_name = ''Hillcrest'', school_code = 300,
           mean_grade_10 = Fl 501, mean_grade_11 = Fl 502, mean_grade_12 = Fl 0,
           highest_enrollment = 502, lowest_enrollment = 0,
           yearly_totals = [1003], total_enrollment = 1003,
           mean_yearly_enrollment = Fl 1003,
           enrollments_over_500 = [501, 502], median_over_500 = Number 501 \<rparr>"
  by (simp add: calculate_school_stats_def get_school_index_hillcrest Let_def)
     (simp add: hillcrest_stats_def np_sum_def wrap64_id np_mean_one grade_column_def median_501_502)

subsection \<open>Counts beyond the reach of float64\<close>

lemma np_mean_big_one: "np_mean [9007199254740993] = Fl 9007199254740992"
proof -
  have b: "f64 9007199254740992 = 9007199254740992"
    using f64_of_int[of 9007199254740992] by simp
  show ?thesis by (simp add: np_mean_def f64_add_def f64_2_53_1 b)
qed

lemma np_mean_big_two: "np_mean [9007199254740993, 9007199254740993] = Fl 9007199254740992"
proof -
  have b: "f64 9007199254740992 = 9007199254740992"
    using f64_of_int[of 9007199254740992] by simp
  have c: "f64 18014398509481984 = 18014398509481984"
    using f64_representable[of 1 54] by simp
  show ?thesis by (simp add: np_mean_def f64_add_def f64_2_53_1 b c)
qed

lemma create_metro_stats:
  "create_enrollment_array g (SchoolStats_init metro_table) = Inr metro_stats"
  by (simp add: create_enrollment_array_eq cube_cells_def school_cells_def year_cells_def
      cell_value_def selected_def unique_def metro_table_def metro_stats_def SchoolStats_init_def)

lemma create_summit_stats:
  "create_enrollment_array g (SchoolStats_init summit_table) = Inr summit_stats"
  by (simp add: create_enrollment_array_eq cube_cells_def school_cells_def year_cells_def
      cell_value_def selected_def unique_def summit_table_def summit_stats_def SchoolStats_init_def)

lemma get_school_index_metro: "get_school_index metro_stats (Name ''Metro'') = Inr 0"
  by (simp add: get_school_index_def metro_stats_def)

lemma get_school_index_summit: "get_school_index summit_stats (Name ''Summit'') = Inr 0"
  by (simp add: get_school_index_def summit_stats_def)

lemma median_metro:
  "py_int (np_median [9007199254740993, 9007199254740993, 9007199254740993]) =
     Inr 9007199254740992"
proof -
  have "np_median [9007199254740993, 9007199254740993, 9007199254740993] =
      np_mean [9007199254740993]"
    by (rule trans[OF np_median_slices]) simp_all
  then show ?thesis by (simp add: np_mean_big_one)
qed

lemma median_summit:
  "py_int (np_median [9007199254740993, 9007199254740993]) = Inr 9007199254740992"
proof -
  have "np_median [9007199254740993, 9007199254740993] =
      np_mean [9007199254740993, 9007199254740993]"
    by (rule trans[OF np_median_slices]) simp_all
  then show ?thesis by (simp add: np_mean_big_two)
qed

lemma calculate_metro:
  "map_sum id enrollments_over_500 (calculate_school_stats metro_stats (Name ''Metro'')) =
     Inr [9007199254740993, 9007199254740993, 9007199254740993] \<and>
   map_sum id median_over_500 (calculate_school_stats metro_stats (Name ''Metro'')) =
     Inr (Number 9007199254740992)"
proof -
  have a: "enrollment_array metro_stats =
      Some [[[9007199254740993, 9007199254740993, 9007199254740993]]]"
    by (simp add: metro_stats_def)
  obtain stats where st: "calculate_school_stats metro_stats (Name ''Metro'') = Inr stats"
    using calculate_school_stats_total[OF get_school_index_metro a] by auto
  note m = median_over_500_of[OF st get_school_index_metro a]
  have o: "enrollments_over_500 stats = [9007199254740993, 9007199254740993, 9007199254740993]"
    using m(1) by simp
  have "median_over_500 stats = Number 9007199254740992"
    using m(2) unfolding o by (simp add: median_metro)
  then show ?thesis using st o by simp
qed

lemma calculate_summit:
  "map_sum id enrollments_over_500 (calculate_school_stats summit_stats (Name ''Summit'')) =
     Inr [9007199254740993, 9007199254740993] \<and>
   map_sum id median_over_500 (calculate_school_stats summit_stats (Name ''Summit'')) =
     Inr (Number 9007199254740992)"
proof -
  have a: "enrollment_array summit_stats = Some [[[9007199254740993, 9007199254740993, 0]]]"
    by (simp add: summit_stats_def)
  obtain stats where st: "calculate_school_stats summit_stats (Name ''Summit'') = Inr stats"
    using calculate_school_stats_total[OF get_school_index_summit a] by auto
  note m = median_over_500_of[OF st get_school_index_summit a]
  have o: "enrollments_over_500 stats = [9007199254740993, 9007199254740993]"
    using m(1) by simp
  have "median_over_500 stats = Number 9007199254740992"
    using m(2) unfolding o by (simp add: median_summit)
  then show ?thesis using st o by simp
qed

section \<open>The shape of a constructed array\<close>

lemma collect_all2:
  "collect (map f xs) = Inr vs \<Longrightarrow> list_all2 (\<lambda>x v. f x = Inr v) xs vs"
proof (induction xs arbitrary: vs)
  case Nil
  then show ?case by simp
next
  case (Cons x xs)
  then show ?case by (auto split: sum.splits)
qed

lemma year_cells_length:
  "year_cells d grades school year = Inr cells \<Longrightarrow> length cells = length grades"
  unfolding year_cells_def using collect_length by fastforce

lemma school_cells_shape:
  assumes "school_cells d grades years school = Inr sl"
  shows "length sl = length years \<and> list_all (\<lambda>cells. length cells = length grades) sl"
proof -
  have a: "list_all2 (\<lambda>y cells. year_cells d grades school y = Inr cells) years sl"
    using assms unfolding school_cells_def by (rule collect_all2)
  then have "length sl = length years" by (simp add: list_all2_lengthD)
  moreover have "length (sl ! n) = length grades" if "n < length sl" for n
  proof -
    have "year_cells d grades school (years ! n) = Inr (sl ! n)"
      using a that by (simp add: list_all2_conv_all_nth)
    then show ?thesis by (rule year_cells_length)
  qed
  ultimately show ?thesis by (simp add: list_all_length)
qed

lemma cube_cells_shape:
  assumes "cube_cells d grades years schools = Inr arr"
  shows "length arr = length schools \<and>
         list_all (\<lambda>sl. length sl = length years \<and> list_all (\<lambda>cells. length cells = length grades) sl) arr"
proof -
  have a: "list_all2 (\<lambda>s sl. school_cells d grades years s = Inr sl) schools arr"
    using assms unfolding cube_cells_def by (rule collect_all2)
  then have "length arr = length schools" by (simp add: list_all2_lengthD)
  moreover have "length (arr ! n) = length years \<and>
      list_all (\<lambda>cells. length cells = length grades) (arr ! n)" if "n < length arr" for n
  proof -
    have "school_cells d grades years (schools ! n) = Inr (arr ! n)"
      using a that by (simp add: list_all2_conv_all_nth)
    then show ?thesis by (rule school_cells_shape)
  qed
  ultimately show ?thesis by (simp add: list_all_length[of _ arr])
qed

lemma create_enrollment_array_Inr:
  assumes "create_enrollment_array g (SchoolStats_init d) = Inr self"
  shows "\<exists>arr. self = (SchoolStats_init d)\<lparr>enrollment_array := Some arr\<rparr> \<and>
           cube_cells d [Grade10, Grade11, Grade12] (unique (map School_Year d))
             (unique (map School_Name d)) = Inr arr"
  using assms by (auto simp: create_enrollment_array_eq data_init split: sum.splits)

lemma concat_nonempty:
  "sl \<noteq> [] \<Longrightarrow> list_all (\<lambda>cells. length cells = Suc n) sl \<Longrightarrow> concat sl \<noteq> []"
  by (cases sl) auto

lemma get_school_index_empty:
  "school_codes self = [] \<Longrightarrow> get_school_index self ident = Inl invalid_school"
  by (cases ident) (simp_all add: get_school_index_def)

lemma calculate_school_stats_unresolved:
  "get_school_index self ident = Inl e \<Longrightarrow> calculate_school_stats self ident = Inl e"
  by (simp add: calculate_school_stats_def)


lemma create_empty_stats:
  "create_enrollment_array g (SchoolStats_init []) = Inr empty_stats"
  by (simp add: create_enrollment_array_eq cube_cells_def unique_def SchoolStats_init_def
      empty_stats_def)







section \<open>Claims\<close>

text \<open>
  C8. Cube construction is a function of the table alone: two runs on the same object,
  each starting from its own uninitialised array, end with the same exception or with the
  same array, cell for cell.
\<close>

theorem create_enrollment_array_deterministic:
  "create_enrollment_array garbage1 self = create_enrollment_array garbage2 self"
  by (simp add: create_enrollment_array_eq)

text \<open>
  C4. An identifier that matches no school of the table, a name that is no row's name or a
  code that is no row's code, makes \<^verbatim>\<open>get_school_index\<close> raise the ValueError with
  the message "You must enter a valid school name or code."; no position is returned.
\<close>

theorem get_school_index_unknown:
  assumes "case ident of Name s \<Rightarrow> s \<notin> School_Name ` set d | Code c \<Rightarrow> c \<notin> School_Code ` set d"
  shows "get_school_index (SchoolStats_init d) ident = Inl invalid_school"
proof (cases ident)
  case (Name s)
  then have "s \<notin> set (map fst (school_codes (SchoolStats_init d)))"
    using assms by (simp add: keys_school_codes set_unique)
  then show ?thesis using Name by (simp add: get_school_index_def)
next
  case (Code c)
  then have "c \<notin> snd ` set (school_codes (SchoolStats_init d))"
    using assms values_school_codes[of d] by auto
  then have "next_name (school_codes (SchoolStats_init d)) c = None"
    by (simp add: next_name_None)
  then show ?thesis using Code by (simp add: get_school_index_def)
qed

theorem get_school_index_unknown_witness:
  "''Washington'' \<notin> School_Name ` set lincoln_table \<and>
   get_school_index (SchoolStats_init lincoln_table) (Name ''Washington'') = Inl invalid_school \<and>
   7 \<notin> School_Code ` set lincoln_table \<and>
   get_school_index (SchoolStats_init lincoln_table) (Code 7) = Inl invalid_school"
proof -
  have n: "''Washington'' \<notin> School_Name ` set lincoln_table"
    and c: "7 \<notin> School_Code ` set lincoln_table"
    by (simp_all add: lincoln_table_def)
  show ?thesis
    using n c get_school_index_unknown[where ident = "Name ''Washington''" and d = lincoln_table]
      get_school_index_unknown[where ident = "Code 7" and d = lincoln_table]
    by simp
qed

text \<open>
  C3, as stated, fails when two schools carry the same code: the code resolves to the
  first of them in dictionary order, the name of the second to the second.
\<close>

theorem resolve_name_and_code_differ:
  "map_of (school_codes (SchoolStats_init shared_code_table)) ''South'' = Some 1 \<and>
   get_school_index (SchoolStats_init shared_code_table) (Name ''South'') = Inr 1 \<and>
   get_school_index (SchoolStats_init shared_code_table) (Code 1) = Inr 0"
  by (simp add: get_school_index_def school_codes_shared)

text \<open>
  C3, amended. A school name \<open>n\<close> that the dictionary maps to the code \<open>c\<close> resolves to
  its position \<open>p\<close> in the dictionary, and the code \<open>c\<close> resolves to the same position
  exactly when no school at an earlier position is mapped to \<open>c\<close>.
\<close>

theorem resolve_name_and_code_agree:
  assumes "(n, c) \<in> set (school_codes (SchoolStats_init d))"
  shows "\<exists>p. get_school_index (SchoolStats_init d) (Name n) = Inr p \<and>
             p < length (school_codes (SchoolStats_init d)) \<and>
             school_codes (SchoolStats_init d) ! p = (n, c) \<and>
             (get_school_index (SchoolStats_init d) (Code c) = Inr p \<longleftrightarrow>
                (\<forall>q<p. snd (school_codes (SchoolStats_init d) ! q) \<noteq> c))"
proof -
  let ?dict = "school_codes (SchoolStats_init d)"
  let ?keys = "map fst ?dict"
  have dist: "distinct ?keys" by (rule distinct_keys_school_codes)
  obtain p where p: "p < length ?dict" "?dict ! p = (n, c)"
    using assms by (auto simp: in_set_conv_nth)
  have kp: "?keys ! p = n" using p by simp
  have mem: "n \<in> set ?keys"
    using assms image_eqI[of n fst "(n, c)" "set ?dict"] by simp
  have ix: "list_index ?keys n = Inr p"
    using list_index_nth[OF dist, of p] p(1) kp by simp
  have name: "get_school_index (SchoolStats_init d) (Name n) = Inr p"
    using mem ix by (simp add: get_school_index_def)
  have "get_school_index (SchoolStats_init d) (Code c) = Inr p \<longleftrightarrow>
      (\<forall>q<p. snd (?dict ! q) \<noteq> c)"
  proof
    assume code: "get_school_index (SchoolStats_init d) (Code c) = Inr p"
    have "next_name ?dict c = Some (fst (?dict ! p))"
      using get_school_index_Inr(2)[OF code] by simp
    then have "next_name ?dict c = Some n" using p(2) by simp
    then obtain p' where p': "p' < length ?dict" "?dict ! p' = (n, c)"
        "\<forall>q<p'. snd (?dict ! q) \<noteq> c"
      using next_name_position by blast
    have "fst (?dict ! p') = fst (?dict ! p)" using p' p by simp
    then have "p' = p"
      by (rule distinct_keys_position[OF dist p'(1) p(1)])
    then show "\<forall>q<p. snd (?dict ! q) \<noteq> c" using p'(3) by simp
  next
    assume first: "\<forall>q<p. snd (?dict ! q) \<noteq> c"
    have "next_name ?dict c = Some (fst (?dict ! p))"
      by (rule next_name_first[OF p(1)]) (use p(2) first in simp_all)
    then have "next_name ?dict c = Some n" using p(2) by simp
    then show "get_school_index (SchoolStats_init d) (Code c) = Inr p"
      using mem ix by (simp add: get_school_index_def)
  qed
  then show ?thesis using name p by blast
qed

theorem resolve_name_and_code_agree_witness:
  "school_codes (SchoolStats_init district_table) = [(''West'', 5), (''North'', 1), (''South'', 1)] \<and>
   get_school_index (SchoolStats_init district_table) (Name ''North'') = Inr 1 \<and>
   get_school_index (SchoolStats_init district_table) (Code 1) = Inr 1 \<and>
   get_school_index (SchoolStats_init district_table) (Name ''South'') = Inr 2 \<and>
   get_school_index (SchoolStats_init district_table) (Code 1) \<noteq> Inr 2"
proof -
  let ?S = "SchoolStats_init district_table"
  have dict: "school_codes ?S = [(''West'', 5), (''North'', 1), (''South'', 1)]"
    by (rule school_codes_district)
  have north: "(''North'', 1) \<in> set (school_codes ?S)"
    and south: "(''South'', 1) \<in> set (school_codes ?S)"
    by (simp_all add: dict)
  have nn: "get_school_index ?S (Name ''North'') = Inr 1"
    and ns: "get_school_index ?S (Name ''South'') = Inr 2"
    by (simp_all add: get_school_index_def dict)
  obtain p where p: "get_school_index ?S (Name ''North'') = Inr p"
      "get_school_index ?S (Code 1) = Inr p \<longleftrightarrow> (\<forall>q<p. snd (school_codes ?S ! q) \<noteq> 1)"
    using resolve_name_and_code_agree[OF north] by blast
  have p1: "p = 1" using p(1) nn by simp
  have "\<forall>q<1. snd (school_codes ?S ! q) \<noteq> (1::int)" by (simp add: dict)
  then have cn: "get_school_index ?S (Code 1) = Inr 1" using p(2) p1 by simp
  obtain r where r: "get_school_index ?S (Name ''South'') = Inr r"
      "get_school_index ?S (Code 1) = Inr r \<longleftrightarrow> (\<forall>q<r. snd (school_codes ?S ! q) \<noteq> 1)"
    using resolve_name_and_code_agree[OF south] by blast
  have r2: "r = 2" using r(1) ns by simp
  have "\<not> (\<forall>q<2. snd (school_codes ?S ! q) \<noteq> (1::int))"
    by (simp add: dict) (rule exI[of _ 1], simp)
  then have cs: "get_school_index ?S (Code 1) \<noteq> Inr 2" using r(2) r2 by simp
  show ?thesis using dict nn cn ns cs by simp
qed

text \<open>
  C1. The claim asks for a cell of 0 where no row matches the school and the year. In the
  table below ''North'' has no row for 2014: the selection is empty, no entry of it is NaN,
  and \<^verbatim>\<open>int\<close> of the empty Series raises TypeError, so the construction ends with that
  exception instead of an array.
\<close>

theorem create_enrollment_array_absent_combination:
  "selected absent_year_table ''North'' 2014 Grade10 = [] \<and>
   create_enrollment_array garbage (SchoolStats_init absent_year_table) = Inl series_not_scalar"
  by (simp add: create_enrollment_array_eq data_init cube_cells_def school_cells_def year_cells_def
      cell_value_def selected_def unique_def absent_year_table_def)

text \<open>
  C9. A position returned by \<^verbatim>\<open>get_school_index\<close> is below the number of distinct
  school names. The keys of the dictionary, in insertion order, are the distinct names in
  order of first appearance, which is the order of the array's first axis, and the code of
  a name in the dictionary is that of its last row. The school at the returned position is
  the school asked for: it has the name asked for, or it carries the code asked for and no
  school at an earlier position does. The slice of a constructed array at that position
  holds the cells of that school.
\<close>

theorem resolved_position_is_cube_position:
  assumes "get_school_index (SchoolStats_init d) ident = Inr p"
  shows "p < length (unique (map School_Name d)) \<and>
         map fst (school_codes (SchoolStats_init d)) = unique (map School_Name d) \<and>
         unique (map School_Name d) = rev (remdups (rev (map School_Name d))) \<and>
         map_of (school_codes (SchoolStats_init d)) =
           map_of (rev (zip (map School_Name d) (map School_Code d))) \<and>
         (case ident of
            Name n \<Rightarrow> unique (map School_Name d) ! p = n
          | Code c \<Rightarrow>
              map_of (school_codes (SchoolStats_init d)) (unique (map School_Name d) ! p) = Some c \<and>
              (\<forall>q<p. map_of (school_codes (SchoolStats_init d)) (unique (map School_Name d) ! q)
                       \<noteq> Some c)) \<and>
         (\<forall>garbage self'.
            create_enrollment_array garbage (SchoolStats_init d) = Inr self' \<longrightarrow>
            (\<exists>arr. enrollment_array self' = Some arr \<and>
                   length arr = length (unique (map School_Name d)) \<and>
                   school_cells d [Grade10, Grade11, Grade12] (unique (map School_Year d))
                     (unique (map School_Name d) ! p) = Inr (arr ! p)))"
proof -
  let ?self = "SchoolStats_init d"
  let ?dict = "school_codes ?self"
  let ?schools = "unique (map School_Name d)"
  have keys: "map fst ?dict = ?schools" by (rule keys_school_codes)
  have dist: "distinct (map fst ?dict)" by (rule distinct_keys_school_codes)
  have len: "length ?dict = length ?schools"
    using arg_cong[OF keys, of length] by simp
  have p: "p < length ?schools"
    using get_school_index_Inr(1)[OF assms] len by simp
  have nth: "fst (?dict ! q) = ?schools ! q" if "q < length ?schools" for q
    using that len nth_map[of q ?dict fst] keys by simp
  have code_at: "map_of ?dict (?schools ! q) = Some (snd (?dict ! q))" if "q < length ?schools" for q
  proof -
    have "?dict ! q \<in> set ?dict" using that len by simp
    then have "(?schools ! q, snd (?dict ! q)) \<in> set ?dict"
      using nth[OF that] by (metis prod.collapse)
    then show ?thesis using dist by simp
  qed
  have res: "case ident of
            Name n \<Rightarrow> ?schools ! p = n
          | Code c \<Rightarrow> map_of ?dict (?schools ! p) = Some c \<and>
                       (\<forall>q<p. map_of ?dict (?schools ! q) \<noteq> Some c)"
  proof (cases ident)
    case (Name n)
    then show ?thesis using get_school_index_Inr(2)[OF assms] nth[OF p] by simp
  next
    case (Code c)
    then have nx: "next_name ?dict c = Some (?schools ! p)"
      using get_school_index_Inr(2)[OF assms] nth[OF p] by simp
    then obtain p' where p': "p' < length ?dict" "?dict ! p' = (?schools ! p, c)"
        "\<forall>q<p'. snd (?dict ! q) \<noteq> c"
      using next_name_position by blast
    have pl: "p < length ?dict" using p len by simp
    have "fst (?dict ! p') = fst (?dict ! p)" using p'(2) nth[OF p] by simp
    then have pp: "p' = p"
      by (rule distinct_keys_position[OF dist p'(1) pl])
    have here: "map_of ?dict (?schools ! p) = Some c"
      using code_at[OF p] p'(2) pp by simp
    have "map_of ?dict (?schools ! q) \<noteq> Some c" if "q < p" for q
    proof -
      have "q < length ?schools" using that p by simp
      then show ?thesis using code_at[of q] p'(3) pp that by simp
    qed
    then show ?thesis using Code here by simp
  qed
  have cube: "\<exists>arr. enrollment_array self' = Some arr \<and> length arr = length ?schools \<and>
      school_cells d [Grade10, Grade11, Grade12] (unique (map School_Year d)) (?schools ! p) = Inr (arr ! p)"
    if c: "create_enrollment_array garbage ?self = Inr self'" for garbage self'
  proof -
    obtain arr where arr: "cube_cells d [Grade10, Grade11, Grade12] (unique (map School_Year d)) ?schools = Inr arr"
      and self': "self' = ?self\<lparr>enrollment_array := Some arr\<rparr>"
      using c by (auto simp: create_enrollment_array_eq data_init split: sum.splits)
    have "length arr = length ?schools"
      using collect_length[OF arr[unfolded cube_cells_def]] by simp
    moreover have "school_cells d [Grade10, Grade11, Grade12] (unique (map School_Year d)) (?schools ! p) = Inr (arr ! p)"
      using collect_nth[OF arr[unfolded cube_cells_def] p] .
    ultimately show ?thesis using self' by simp
  qed
  show ?thesis
    using p keys res cube unique_first_occurrences[of "map School_Name d"] map_of_school_codes[of d]
    by blast
qed

theorem resolved_position_is_cube_position_witness:
  "unique (map School_Name district_table) = [''West'', ''North'', ''South''] \<and>
   get_school_index (SchoolStats_init district_table) (Code 1) = Inr 1 \<and>
   map_of (school_codes (SchoolStats_init district_table)) ''North'' = Some 1 \<and>
   map_of (school_codes (SchoolStats_init district_table)) ''West'' \<noteq> Some 1 \<and>
   create_enrollment_array zero_memory (SchoolStats_init district_table) = Inr district_stats \<and>
   school_cells district_table [Grade10, Grade11, Grade12] (unique (map School_Year district_table))
     ''North'' = Inr [[210, 220, 230], [240, 250, 260]] \<and>
   get_school_index (SchoolStats_init district_table) (Name ''South'') = Inr 2 \<and>
   school_cells district_table [Grade10, Grade11, Grade12] (unique (map School_Year district_table))
     ''South'' = Inr [[310, 320, 330], [340, 350, 360]]"
proof -
  let ?S = "SchoolStats_init district_table"
  have u: "unique (map School_Name district_table) = [''West'', ''North'', ''South'']"
    by (simp add: unique_def district_table_def)
  have rc: "get_school_index ?S (Code 1) = Inr 1"
    and rs: "get_school_index ?S (Name ''South'') = Inr 2"
    by (simp_all add: get_school_index_def school_codes_district)
  have c: "create_enrollment_array zero_memory ?S = Inr district_stats"
    by (rule create_district_stats)
  have a: "enrollment_array district_stats =
      Some [[[110, 120, 130], [140, 150, 160]],
            [[210, 220, 230], [240, 250, 260]],
            [[310, 320, 330], [340, 350, 360]]]"
    by (simp add: district_stats_def)
  note t = resolved_position_is_cube_position[OF rc]
  have code: "map_of (school_codes ?S) ''North'' = Some 1 \<and>
      map_of (school_codes ?S) ''West'' \<noteq> Some 1"
  proof -
    have "map_of (school_codes ?S) (unique (map School_Name district_table) ! 1) = Some 1 \<and>
        (\<forall>q<1. map_of (school_codes ?S) (unique (map School_Name district_table) ! q) \<noteq> Some 1)"
      using conjunct1[OF conjunct2[OF conjunct2[OF conjunct2[OF conjunct2[OF t]]]]] by simp
    then show ?thesis by (simp add: u)
  qed
  have "\<exists>arr. enrollment_array district_stats = Some arr \<and>
      school_cells district_table [Grade10, Grade11, Grade12]
        (unique (map School_Year district_table))
        (unique (map School_Name district_table) ! 1) = Inr (arr ! 1)"
    using t c by blast
  then have north: "school_cells district_table [Grade10, Grade11, Grade12]
      (unique (map School_Year district_table)) ''North'' = Inr [[210, 220, 230], [240, 250, 260]]"
    using a by (auto simp: u)
  note t' = resolved_position_is_cube_position[OF rs]
  have "\<exists>arr. enrollment_array district_stats = Some arr \<and>
      school_cells district_table [Grade10, Grade11, Grade12]
        (unique (map School_Year district_table))
        (unique (map School_Name district_table) ! 2) = Inr (arr ! 2)"
    using t' c by blast
  then have south: "school_cells district_table [Grade10, Grade11, Grade12]
      (unique (map School_Year district_table)) ''South'' = Inr [[310, 320, 330], [340, 350, 360]]"
    using a by (auto simp: u)
  show ?thesis using u rc code c north rs south by simp
qed

text \<open>
  C2. When \<^verbatim>\<open>calculate_school_stats\<close> returns a record for an identifier that resolves
  to position \<open>i\<close>, its \<^verbatim>\<open>total_enrollment\<close> is the sum of all cells of the slice at
  \<open>i\<close>, over all years and grades, computed in int64 as numpy does; it is also the sum of
  the yearly totals, and it is the exact sum whenever that fits in 64 bits.
\<close>

theorem total_enrollment_is_slice_sum:
  assumes "calculate_school_stats self ident = Inr stats"
  shows "\<exists>i arr. get_school_index self ident = Inr i \<and> enrollment_array self = Some arr \<and>
           i < length arr \<and>
           total_enrollment stats = wrap64 (slice_sum (arr ! i)) \<and>
           total_enrollment stats = np_sum (yearly_totals stats) \<and>
           (- (2 ^ 63) \<le> slice_sum (arr ! i) \<and> slice_sum (arr ! i) < 2 ^ 63 \<longrightarrow>
              total_enrollment stats = slice_sum (arr ! i))"
proof -
  obtain i arr where f: "get_school_index self ident = Inr i" "enrollment_array self = Some arr"
      "i < length arr" "total_enrollment stats = np_sum (concat (arr ! i))"
      "yearly_totals stats = map np_sum (arr ! i)"
    using calculate_school_stats_Inr[OF assms] by blast
  have t: "total_enrollment stats = wrap64 (slice_sum (arr ! i))"
    using f(4) by (simp add: np_sum_def slice_sum_concat)
  have y: "total_enrollment stats = np_sum (yearly_totals stats)"
    using f(4,5) by (simp add: np_sum_yearly)
  have e: "- (2 ^ 63) \<le> slice_sum (arr ! i) \<and> slice_sum (arr ! i) < 2 ^ 63 \<longrightarrow>
      total_enrollment stats = slice_sum (arr ! i)"
    using t by (simp add: wrap64_id)
  show ?thesis using f(1,2,3) t y e by blast
qed

theorem total_enrollment_is_slice_sum_witness:
  "create_enrollment_array (\<lambda>i j k. 0) (SchoolStats_init lincoln_table) = Inr lincoln_stats \<and>
   get_school_index lincoln_stats (Name ''Lincoln'') = Inr 0 \<and>
   enrollment_array lincoln_stats = Some [[[400, 420, 600], [450, 0, 610]]] \<and>
   slice_sum [[400, 420, 600], [450, 0, 610]] = 2480 \<and>
   (\<exists>stats. calculate_school_stats lincoln_stats (Name ''Lincoln'') = Inr stats \<and>
            total_enrollment stats = 2480 \<and> yearly_totals stats = [1420, 1060])"
proof -
  let ?stats = "\<lparr> school_name = ''Lincoln'', school_code = 100,
           mean_grade_10 = Fl 425, mean_grade_11 = Fl 210, mean_grade_12 = Fl 605,
           highest_enrollment = 610, lowest_enrollment = 0,
           yearly_totals = [1420, 1060], total_enrollment = 2480,
           mean_yearly_enrollment = Fl 1240,
           enrollments_over_500 = [600, 610], median_over_500 = Number 605 \<rparr>"
  have a: "enrollment_array lincoln_stats = Some [[[400, 420, 600], [450, 0, 610]]]"
    by (simp add: lincoln_stats_def)
  have s: "slice_sum [[400, 420, 600], [450, 0, 610]] = 2480"
    by (simp add: slice_sum_concat)
  obtain i arr where "get_school_index lincoln_stats (Name ''Lincoln'') = Inr i"
      "enrollment_array lincoln_stats = Some arr"
      "- (2 ^ 63) \<le> slice_sum (arr ! i) \<and> slice_sum (arr ! i) < 2 ^ 63 \<longrightarrow>
         total_enrollment ?stats = slice_sum (arr ! i)"
    using total_enrollment_is_slice_sum[OF calculate_lincoln] by blast
  then have "total_enrollment ?stats = slice_sum [[400, 420, 600], [450, 0, 610]]"
    using a s by (simp add: get_school_index_lincoln)
  then show ?thesis
    using create_lincoln_stats get_school_index_lincoln a s calculate_lincoln by simp
qed


text \<open>
  C5, as stated, fails: the median is computed in float64. For a school whose three cells
  are \<open>2 ^ 53 + 1\<close> the field is \<open>2 ^ 53\<close>, where the integer median of the cells above
  500 is \<open>2 ^ 53 + 1\<close>.
\<close>

theorem median_over_500_rounded_by_float64:
  "create_enrollment_array zero_memory (SchoolStats_init metro_table) = Inr metro_stats \<and>
   map_sum id enrollments_over_500 (calculate_school_stats metro_stats (Name ''Metro'')) =
     Inr [9007199254740993, 9007199254740993, 9007199254740993] \<and>
   map_sum id median_over_500 (calculate_school_stats metro_stats (Name ''Metro'')) =
     Inr (Number 9007199254740992) \<and>
   integer_median (mset [9007199254740993, 9007199254740993, 9007199254740993]) =
     9007199254740993"
proof -
  have "integer_median (mset [9007199254740993, 9007199254740993, 9007199254740993]) =
      9007199254740993"
    by (simp add: integer_median_def)
  then show ?thesis using create_metro_stats calculate_metro by simp
qed

text \<open>
  C5, amended. In a returned record, \<^verbatim>\<open>median_over_500\<close> is the string
  "No enrollments over 500", and no number, when no cell of the school's slice is above 500.
  When some cell is above 500 and no cell is above \<open>2 ^ 52\<close>, it is the integer median of
  the multiset of the cells above 500.
\<close>

theorem median_over_500_marker_or_median:
  assumes "calculate_school_stats self ident = Inr stats"
    and "list_all (\<lambda>v. v \<le> 2 ^ 52) (enrollments_over_500 stats)"
  shows "\<exists>i arr. get_school_index self ident = Inr i \<and> enrollment_array self = Some arr \<and>
           i < length arr \<and>
           (let over = filter_mset (\<lambda>v. 500 < v) (mset (concat (arr ! i)))
            in mset (enrollments_over_500 stats) = over \<and>
               (if over = {#}
                then median_over_500 stats = Marker ''No enrollments over 500'' \<and>
                     (\<forall>m. median_over_500 stats \<noteq> Number m)
                else median_over_500 stats = Number (integer_median over)))"
proof -
  let ?xs = "enrollments_over_500 stats"
  obtain i arr where f: "get_school_index self ident = Inr i" "enrollment_array self = Some arr"
      "i < length arr"
      "?xs = filter (\<lambda>v. 500 < v) (concat (arr ! i))"
      "Inr (median_over_500 stats) =
         (if ?xs = [] then Inr (Marker ''No enrollments over 500'')
          else map_sum id Number (py_int (np_median ?xs)))"
    using calculate_school_stats_Inr[OF assms(1)] by blast
  let ?over = "filter_mset (\<lambda>v. 500 < v) (mset (concat (arr ! i)))"
  have m: "mset ?xs = ?over"
    using f(4) by simp
  have e: "?xs = [] \<longleftrightarrow> ?over = {#}"
    using m by (metis mset_zero_iff)
  have small: "list_all (\<lambda>v. \<bar>v\<bar> \<le> 2 ^ 52) ?xs"
  proof -
    have "\<bar>v\<bar> \<le> 2 ^ 52" if v: "v \<in> set ?xs" for v
    proof -
      have "500 < v" using v unfolding f(4) by simp
      moreover have "v \<le> 2 ^ 52" using v assms(2) by (simp add: list_all_iff)
      ultimately show ?thesis by simp
    qed
    then show ?thesis by (simp add: list_all_iff)
  qed
  have med: "median_over_500 stats = Number (integer_median (mset ?xs))" if ne: "?xs \<noteq> []"
  proof -
    have "py_int (np_median ?xs) = Inr (integer_median (mset ?xs))"
      by (rule py_int_np_median[OF ne small_values_exact[OF ne small]])
    then show ?thesis using f(5) ne by simp
  qed
  have "if ?over = {#}
        then median_over_500 stats = Marker ''No enrollments over 500'' \<and>
             (\<forall>m. median_over_500 stats \<noteq> Number m)
        else median_over_500 stats = Number (integer_median ?over)"
  proof (cases "?over = {#}")
    case True
    then have "?xs = []" using e by simp
    then show ?thesis using f(5) True by simp
  next
    case False
    then have "?xs \<noteq> []" using e by simp
    then show ?thesis using med m False by simp
  qed
  then show ?thesis using f(1,2,3) m by (simp add: Let_def)
qed

theorem median_over_500_marker_or_median_witness:
  "create_enrollment_array zero_memory (SchoolStats_init riverside_table) = Inr riverside_stats \<and>
   filter_mset (\<lambda>v. 500 < v) (mset (concat [[100, 200, 0 :: int]])) = {#} \<and>
   (\<exists>stats. calculate_school_stats riverside_stats (Code 200) = Inr stats \<and>
            list_all (\<lambda>v. v \<le> 2 ^ 52) (enrollments_over_500 stats) \<and>
            median_over_500 stats = Marker ''No enrollments over 500'') \<and>
   create_enrollment_array zero_memory (SchoolStats_init lincoln_table) = Inr lincoln_stats \<and>
   filter_mset (\<lambda>v. 500 < v) (mset (concat [[400, 420, 600], [450, 0, 610 :: int]])) = {#600, 610#} \<and>
   integer_median {#600, 610#} = 605 \<and>
   (\<exists>stats. calculate_school_stats lincoln_stats (Name ''Lincoln'') = Inr stats \<and>
            list_all (\<lambda>v. v \<le> 2 ^ 52) (enrollments_over_500 stats) \<and>
            median_over_500 stats = Number 605)"
proof -
  let ?r = "projr (calculate_school_stats riverside_stats (Code 200))"
  let ?l = "projr (calculate_school_stats lincoln_stats (Name ''Lincoln''))"
  have r0: "filter_mset (\<lambda>v. 500 < v) (mset (concat [[100, 200, 0 :: int]])) = {#}"
    by simp
  have l0: "filter_mset (\<lambda>v. 500 < v) (mset (concat [[400, 420, 600], [450, 0, 610 :: int]])) = {#600, 610#}"
    by simp
  have rc: "calculate_school_stats riverside_stats (Code 200) = Inr ?r"
    and rb: "list_all (\<lambda>v. v \<le> 2 ^ 52) (enrollments_over_500 ?r)"
    by (simp_all add: calculate_riverside)
  have lc: "calculate_school_stats lincoln_stats (Name ''Lincoln'') = Inr ?l"
    and lb: "list_all (\<lambda>v. v \<le> 2 ^ 52) (enrollments_over_500 ?l)"
    by (simp_all add: calculate_lincoln)
  obtain i arr where r: "get_school_index riverside_stats (Code 200) = Inr i"
      "enrollment_array riverside_stats = Some arr"
      "(let over = filter_mset (\<lambda>v. 500 < v) (mset (concat (arr ! i)))
        in mset (enrollments_over_500 ?r) = over \<and>
           (if over = {#}
            then median_over_500 ?r = Marker ''No enrollments over 500'' \<and>
                 (\<forall>m. median_over_500 ?r \<noteq> Number m)
            else median_over_500 ?r = Number (integer_median over)))"
    using median_over_500_marker_or_median[OF rc rb] by blast
  have ri: "i = 0" "arr = [[[100, 200, 0]]]"
    using r(1) apply (simp add: get_school_index_riverside)
    using r(2) by (simp add: riverside_stats_def)
  have rm: "median_over_500 ?r = Marker ''No enrollments over 500''"
    using r(3) unfolding ri by (simp add: Let_def)
  obtain j arr' where l: "get_school_index lincoln_stats (Name ''Lincoln'') = Inr j"
      "enrollment_array lincoln_stats = Some arr'"
      "(let over = filter_mset (\<lambda>v. 500 < v) (mset (concat (arr' ! j)))
        in mset (enrollments_over_500 ?l) = over \<and>
           (if over = {#}
            then median_over_500 ?l = Marker ''No enrollments over 500'' \<and>
                 (\<forall>m. median_over_500 ?l \<noteq> Number m)
            else median_over_500 ?l = Number (integer_median over)))"
    using median_over_500_marker_or_median[OF lc lb] by blast
  have li: "j = 0" "arr' = [[[400, 420, 600], [450, 0, 610]]]"
    using l(1) apply (simp add: get_school_index_lincoln)
    using l(2) by (simp add: lincoln_stats_def)
  have lm: "median_over_500 ?l = Number (integer_median {#600, 610#})"
    using l(3) unfolding li by (simp add: Let_def)
  then have im: "integer_median {#600, 610#} = 605"
    by (simp add: calculate_lincoln)
  show ?thesis
    using r0 l0 im create_riverside_stats create_lincoln_stats rm lm
    by (simp add: calculate_riverside calculate_lincoln)
qed

text \<open>
  C10, as stated, fails: for the even subset of two cells \<open>2 ^ 53 + 1\<close> the reported median
  is \<open>2 ^ 53\<close>, below both values, where their average truncated toward zero is
  \<open>2 ^ 53 + 1\<close>.
\<close>

theorem median_over_500_even_rounded_by_float64:
  "create_enrollment_array zero_memory (SchoolStats_init summit_table) = Inr summit_stats \<and>
   map_sum id enrollments_over_500 (calculate_school_stats summit_stats (Name ''Summit'')) =
     Inr [9007199254740993, 9007199254740993] \<and>
   map_sum id median_over_500 (calculate_school_stats summit_stats (Name ''Summit'')) =
     Inr (Number 9007199254740992) \<and>
   truncate_toward_zero ((of_int 9007199254740993 + of_int 9007199254740993) / 2) =
     9007199254740993"
proof -
  have "truncate_toward_zero ((of_int 9007199254740993 + of_int 9007199254740993) / 2) =
      (9007199254740993 + 9007199254740993) div 2"
    by (rule truncate_half_nonneg) simp
  then have "truncate_toward_zero ((of_int 9007199254740993 + of_int 9007199254740993) / 2) =
      9007199254740993"
    by simp
  then show ?thesis using create_summit_stats calculate_summit by simp
qed

text \<open>
  C10, amended. When the cells above 500 are an even, non-zero number of values and the two
  middle values add up to at most \<open>2 ^ 53\<close>, the reported median is the average of the two
  middle values truncated toward zero; the values being above 500, that is their sum divided
  by two, rounded down. For the values 501 and 502 it is 501.
\<close>

theorem median_over_500_even_truncates:
  assumes "calculate_school_stats self ident = Inr stats"
    and "enrollments_over_500 stats \<noteq> []"
    and "even (length (enrollments_over_500 stats))"
    and "sort (enrollments_over_500 stats) ! (length (enrollments_over_500 stats) div 2 - 1) +
         sort (enrollments_over_500 stats) ! (length (enrollments_over_500 stats) div 2) \<le> 2 ^ 53"
  shows "let s = sort (enrollments_over_500 stats);
             lo = s ! (length s div 2 - 1);
             hi = s ! (length s div 2)
         in median_over_500 stats = Number (truncate_toward_zero ((of_int lo + of_int hi) / 2)) \<and>
            median_over_500 stats = Number ((lo + hi) div 2) \<and>
            500 < lo \<and> lo \<le> hi"
proof -
  let ?xs = "enrollments_over_500 stats"
  let ?s = "sort ?xs"
  let ?n = "length ?xs"
  let ?lo = "?s ! (?n div 2 - 1)"
  let ?hi = "?s ! (?n div 2)"
  obtain i arr where f:
      "?xs = filter (\<lambda>v. 500 < v) (concat (arr ! i))"
      "Inr (median_over_500 stats) =
         (if ?xs = [] then Inr (Marker ''No enrollments over 500'')
          else map_sum id Number (py_int (np_median ?xs)))"
    using calculate_school_stats_Inr[OF assms(1)] by blast
  obtain b where b: "?n = 2 * b" using assms(3) by (auto elim: evenE)
  have "0 < ?n" using assms(2) by simp
  then have "b \<noteq> 0" unfolding b by simp
  then have ix: "?n div 2 - 1 < length ?s" "?n div 2 < length ?s" "?n div 2 - 1 \<le> ?n div 2"
    using b by simp_all
  have "?lo \<in> set ?s" using ix(1) by (rule nth_mem)
  then have "?lo \<in> set (filter (\<lambda>v. 500 < v) (concat (arr ! i)))"
    using f(1) by simp
  then have lo: "500 < ?lo" by simp
  have le: "?lo \<le> ?hi"
    using sorted_nth_mono[OF sorted_sort ix(3) ix(2)] .
  have ab: "\<bar>?lo\<bar> + \<bar>?hi\<bar> \<le> 2 ^ 53" using lo le assms(4) by simp
  have "py_int (np_median ?xs) = Inr (integer_median (mset ?xs))"
    using assms(3) ab by (intro py_int_np_median[OF assms(2)]) simp_all
  then have "median_over_500 stats = Number (integer_median (mset ?xs))"
    using f(2) assms(2) by simp
  then have med: "median_over_500 stats = Number (truncate_toward_zero ((of_int ?lo + of_int ?hi) / 2))"
    using assms(2,3) by (simp add: integer_median_def Let_def)
  have "0 \<le> ?lo + ?hi" using lo le by simp
  then have "truncate_toward_zero ((of_int ?lo + of_int ?hi) / 2) = (?lo + ?hi) div 2"
    by (rule truncate_half_nonneg)
  then show ?thesis using med lo le by (simp add: Let_def)
qed

theorem median_over_500_even_truncates_witness:
  "create_enrollment_array zero_memory (SchoolStats_init hillcrest_table) = Inr hillcrest_stats \<and>
   sort [501, 502 :: int] ! (length [501, 502 :: int] div 2 - 1) +
     sort [501, 502 :: int] ! (length [501, 502 :: int] div 2) \<le> 2 ^ 53 \<and>
   (\<exists>stats. calculate_school_stats hillcrest_stats (Name ''Hillcrest'') = Inr stats \<and>
            enrollments_over_500 stats = [501, 502] \<and>
            median_over_500 stats = Number 501 \<and>
            median_over_500 stats \<noteq> Number 502)"
proof -
  let ?stats = "\<lparr> school_name = ''Hillcrest'', school_code = 300,
           mean_grade_10 = Fl 501, mean_grade_11 = Fl 502, mean_grade_12 = Fl 0,
           highest_enrollment = 502, lowest_enrollment = 0,
           yearly_totals = [1003], total_enrollment = 1003,
           mean_yearly_enrollment = Fl 1003,
           enrollments_over_500 = [501, 502], median_over_500 = Number 501 \<rparr>"
  have a: "enrollments_over_500 ?stats \<noteq> []" and e: "even (length (enrollments_over_500 ?stats))"
    by simp_all
  have s: "sort (enrollments_over_500 ?stats) ! (length (enrollments_over_500 ?stats) div 2 - 1) +
         sort (enrollments_over_500 ?stats) ! (length (enrollments_over_500 ?stats) div 2) \<le> 2 ^ 53"
    by simp
  have "median_over_500 ?stats = Number ((501 + 502) div 2)"
    using median_over_500_even_truncates[OF calculate_hillcrest a e s]
    by (simp add: Let_def)
  then have "median_over_500 ?stats = Number 501 \<and> median_over_500 ?stats \<noteq> Number 502"
    by simp
  then show ?thesis
    using create_hillcrest_stats calculate_hillcrest by simp
qed

text \<open>
  C6, as stated, fails: the source has no empty-data error. For the array of a table
  without rows (no schools, no years) the statistics of a school fail in
  \<^verbatim>\<open>get_school_index\<close>, with the ValueError that an unknown identifier raises on any
  table.
\<close>

theorem empty_table_fails_like_unknown_school:
  "create_enrollment_array zero_memory (SchoolStats_init []) = Inr empty_stats \<and>
   enrollment_array empty_stats = Some [] \<and>
   calculate_school_stats empty_stats (Name ''Lincoln'') =
     Inl (ValueError ''You must enter a valid school name or code.'') \<and>
   calculate_school_stats empty_stats (Code 100) =
     Inl (ValueError ''You must enter a valid school name or code.'') \<and>
   get_school_index lincoln_stats (Name ''Washington'') =
     Inl (ValueError ''You must enter a valid school name or code.'')"
  by (simp add: create_empty_stats calculate_school_stats_def get_school_index_def
      empty_stats_def lincoln_stats_def invalid_school_def)

text \<open>
  C6, amended. A constructed array has the shape (schools, years, 3), and it has no schools
  or no years exactly when the table has no rows. Then \<^verbatim>\<open>calculate_school_stats\<close>
  raises, for every identifier, the ValueError of \<^verbatim>\<open>get_school_index\<close>, before any
  statistic is computed. When the table has rows, that ValueError for an identifier that
  does not resolve is the only failure: every identifier that resolves gets a record.
\<close>

theorem degenerate_cube_fails_in_resolution:
  assumes "create_enrollment_array garbage (SchoolStats_init d) = Inr self"
  shows "\<exists>arr. enrollment_array self = Some arr \<and>
           length arr = length (unique (map School_Name d)) \<and>
           list_all (\<lambda>sl. length sl = length (unique (map School_Year d)) \<and>
                          list_all (\<lambda>cells. length cells = 3) sl) arr \<and>
           ((arr = [] \<or> unique (map School_Year d) = []) \<longleftrightarrow> d = []) \<and>
           (if d = [] then calculate_school_stats self ident = Inl invalid_school
            else (case calculate_school_stats self ident of
                    Inl e \<Rightarrow> e = invalid_school \<and> get_school_index self ident = Inl invalid_school
                  | Inr stats \<Rightarrow> get_school_index self ident \<noteq> Inl invalid_school))"
proof -
  let ?schools = "unique (map School_Name d)"
  let ?years = "unique (map School_Year d)"
  obtain arr where self: "self = (SchoolStats_init d)\<lparr>enrollment_array := Some arr\<rparr>"
    and cells: "cube_cells d [Grade10, Grade11, Grade12] ?years ?schools = Inr arr"
    using create_enrollment_array_Inr[OF assms] by blast
  have ea: "enrollment_array self = Some arr" using self by simp
  have sc: "school_codes self = school_codes (SchoolStats_init d)" using self by simp
  have len: "length arr = length ?schools"
    and shape: "list_all (\<lambda>sl. length sl = length ?years \<and>
                          list_all (\<lambda>cells. length cells = 3) sl) arr"
    using cube_cells_shape[OF cells] by (simp_all add: numeral_3_eq_3)
  have sch: "?schools = [] \<longleftrightarrow> d = []" and yrs: "?years = [] \<longleftrightarrow> d = []"
    by (simp_all add: unique_Nil_iff)
  have deg: "(arr = [] \<or> ?years = []) \<longleftrightarrow> d = []"
    using len sch yrs by (metis length_0_conv)
  have keys: "length (school_codes self) = length ?schools"
    using arg_cong[OF keys_school_codes[of d], of length] sc by simp
  have res: "if d = [] then calculate_school_stats self ident = Inl invalid_school
            else (case calculate_school_stats self ident of
                    Inl e \<Rightarrow> e = invalid_school \<and> get_school_index self ident = Inl invalid_school
                  | Inr stats \<Rightarrow> get_school_index self ident \<noteq> Inl invalid_school)"
  proof (cases "d = []")
    case True
    then have "school_codes self = []" using keys sch by simp
    then have "get_school_index self ident = Inl invalid_school"
      by (rule get_school_index_empty)
    then show ?thesis using True by (simp add: calculate_school_stats_unresolved)
  next
    case False
    show ?thesis
    proof (cases "get_school_index self ident")
      case (Inl e)
      then have "e = invalid_school" by (rule get_school_index_Inl)
      then show ?thesis using False Inl by (simp add: calculate_school_stats_unresolved)
    next
      case (Inr i)
      have i: "i < length arr"
        using get_school_index_Inr(1)[OF Inr] keys len by simp
      have sl: "length (arr ! i) = length ?years"
        "list_all (\<lambda>cells. length cells = Suc 2) (arr ! i)"
        using shape i by (simp_all add: list_all_length[of _ arr] numeral_3_eq_3)
      have "arr ! i \<noteq> []" using sl(1) yrs False by auto
      then have "concat (arr ! i) \<noteq> []" using sl(2) by (rule concat_nonempty)
      then obtain stats where "calculate_school_stats self ident = Inr stats"
        using calculate_school_stats_total[OF Inr ea i] by blast
      then show ?thesis using False Inr by simp
    qed
  qed
  show ?thesis using ea len shape deg res by blast
qed

theorem degenerate_cube_fails_in_resolution_witness:
  "create_enrollment_array zero_memory (SchoolStats_init []) = Inr empty_stats \<and>
   calculate_school_stats empty_stats (Name ''Lincoln'') = Inl invalid_school \<and>
   create_enrollment_array zero_memory (SchoolStats_init lincoln_table) = Inr lincoln_stats \<and>
   lincoln_table \<noteq> [] \<and>
   (\<exists>stats. calculate_school_stats lincoln_stats (Name ''Lincoln'') = Inr stats) \<and>
   calculate_school_stats lincoln_stats (Name ''Washington'') = Inl invalid_school"
proof -
  have e: "calculate_school_stats empty_stats (Name ''Lincoln'') = Inl invalid_school"
    using degenerate_cube_fails_in_resolution[where ident = "Name ''Lincoln''" and garbage = zero_memory,
        OF create_empty_stats]
    by auto
  have ne: "lincoln_table \<noteq> []" by (simp add: lincoln_table_def)
  have w: "get_school_index lincoln_stats (Name ''Washington'') = Inl invalid_school"
    by (simp add: get_school_index_def lincoln_stats_def)
  have "case calculate_school_stats lincoln_stats (Name ''Washington'') of
          Inl e \<Rightarrow> e = invalid_school \<and>
                   get_school_index lincoln_stats (Name ''Washington'') = Inl invalid_school
        | Inr stats \<Rightarrow> get_school_index lincoln_stats (Name ''Washington'') \<noteq> Inl invalid_school"
    using degenerate_cube_fails_in_resolution[where ident = "Name ''Washington''" and garbage = zero_memory,
        OF create_lincoln_stats] ne
    by auto
  then have u: "calculate_school_stats lincoln_stats (Name ''Washington'') = Inl invalid_school"
    using w by (cases "calculate_school_stats lincoln_stats (Name ''Washington'')") simp_all
  show ?thesis
    using e ne u create_empty_stats create_lincoln_stats calculate_lincoln by simp
qed




end
